theory Spec2Isabelle
  imports Main
begin

section \<open>Data model\<close>

text \<open>
  The fields of \<^verbatim>\<open>IGitSourceSettings\<close> that \<^verbatim>\<open>git-source-provider.ts\<close> reads.
  Strings that the source tests for truthiness (\<^verbatim>\<open>ref\<close>, \<^verbatim>\<open>commit\<close>, \<^verbatim>\<open>sshKey\<close>,
  \<^verbatim>\<open>submodulesRemoteBranch\<close>) are truthy exactly when they are not empty.
  \<^verbatim>\<open>fetchDepth\<close> is a whole number.
\<close>

record settings =
  repositoryOwner :: string
  repositoryName :: string
  repositoryPath :: string
  ref :: string
  commit :: string
  clean :: bool
  fetchDepth :: int
  lfs :: bool
  submodules :: bool
  nestedSubmodules :: bool
  authToken :: string
  sshKey :: string
  persistCredentials :: bool
  submodulesRemoteBranch :: string

text \<open>
  \<^verbatim>\<open>ICheckoutInfo\<close>, the pair returned by \<^verbatim>\<open>refHelper.getCheckoutInfo\<close>. Its field
  \<^verbatim>\<open>ref\<close> is called \<open>info_ref\<close> here, the name \<open>ref\<close> being taken by the settings.
\<close>

datatype checkoutInfo = CheckoutInfo (info_ref: string) (startPoint: string)

text \<open>A command manager (\<^verbatim>\<open>IGitCommandManager\<close>) is an opaque handle.\<close>

datatype git = GitCommandManager nat

datatype error = Error string

text \<open>
  Every call of a collaborator, with its arguments. The methods of the auth helper carry
  the command manager that \<^verbatim>\<open>createAuthHelper(git, settings)\<close> was given.
  \<^verbatim>\<open>git.fetch(refSpec)\<close> without a depth is \<open>Fetch g refSpec None\<close>, and
  \<^verbatim>\<open>git.log1()\<close> without a format is \<open>Log1 g None\<close>.
\<close>

datatype call =
    FileExistsSync string
  | RmRF string
  | DirectoryExistsSync string
  | MkdirP string
  | CreateCommandManager string bool
  | PrepareExistingDirectory "git option" string string bool string
  | DownloadRepository string string string string string string
  | SetRepositoryPath string
  | Init git
  | RemoteAdd git string string
  | TryDisableAutomaticGarbageCollection git
  | ConfigureAuth git
  | RemoteBranchExists git string
  | GitGetDefaultBranch git string
  | ApiGetDefaultBranch string string string
  | LfsInstall git
  | Fetch git "string list" "int option"
  | TestRef git string string
  | GetCheckoutInfo git string string
  | LfsFetch git string
  | Checkout git string string
  | ConfigureGlobalAuth git
  | SubmoduleSync git bool
  | SubmoduleUpdate git int bool
  | SubmoduleForeach git string bool
  | ConfigureSubmoduleAuth git
  | GetSubmodulesList git
  | RemoveGlobalAuth git
  | Log1 git "string option"
  | CheckCommitInfo string string string string string string
  | RemoveAuth git

datatype val =
    VUnit
  | VBool bool
  | VString string
  | VStrings "string list"
  | VGit git
  | VCheckoutInfo checkoutInfo

type_synonym outcome = "error + val"
type_synonym event = "call \<times> outcome"
type_synonym trace = "event list"

text \<open>
  The collaborators. The synchronous string helpers (\<^verbatim>\<open>urlHelper.getFetchUrl\<close>,
  \<^verbatim>\<open>path.join\<close>, \<^verbatim>\<open>refHelper.getRefSpec\<close>, \<^verbatim>\<open>refHelper.getRefSpecForAllHistory\<close>) and
  the constant \<^verbatim>\<open>gitCommandManager.MinimumGitVersion\<close> are parameters. Every other
  collaborator call either throws or returns a value of its return type; the answer may
  depend on the call and on the moment it is made, which is the number of collaborator
  calls made before it. One oracle per return type gives the answers.
\<close>

record env =
  getFetchUrl :: "settings \<Rightarrow> string"
  pathJoin :: "string \<Rightarrow> string \<Rightarrow> string"
  getRefSpec :: "string \<Rightarrow> string \<Rightarrow> string list"
  getRefSpecForAllHistory :: "string \<Rightarrow> string \<Rightarrow> string list"
  MinimumGitVersion :: string
  void_result :: "nat \<Rightarrow> call \<Rightarrow> error + unit"
  bool_result :: "nat \<Rightarrow> call \<Rightarrow> error + bool"
  string_result :: "nat \<Rightarrow> call \<Rightarrow> error + string"
  strings_result :: "nat \<Rightarrow> call \<Rightarrow> error + string list"
  git_result :: "nat \<Rightarrow> call \<Rightarrow> error + git"
  checkoutInfo_result :: "nat \<Rightarrow> call \<Rightarrow> error + checkoutInfo"

section \<open>Effects: a clock, a result or an error, and the calls made\<close>

text \<open>
  A computation starts when \<open>n\<close> collaborator calls have been made; it returns a value
  or the error it threw, and the events (call and outcome) it added, in order.
\<close>

type_synonym 'a io = "nat \<Rightarrow> (error + 'a) \<times> trace"

definition io_return :: "'a \<Rightarrow> 'a io" where
  "io_return x = (\<lambda>n. (Inr x, []))"

definition io_throw :: "error \<Rightarrow> 'a io" where
  "io_throw e = (\<lambda>n. (Inl e, []))"

definition io_bind :: "'a io \<Rightarrow> ('a \<Rightarrow> 'b io) \<Rightarrow> 'b io" where
  "io_bind m f = (\<lambda>n.
     case m n of
       (Inl e, t) \<Rightarrow> (Inl e, t)
     | (Inr x, t) \<Rightarrow> (case f x (n + length t) of (r, t') \<Rightarrow> (r, t @ t')))"

text \<open>
  \<^verbatim>\<open>try { m } finally { fin }\<close>: the finally block runs however \<open>m\<close> ends; an error
  thrown by the finally block replaces the completion of \<open>m\<close>.
\<close>

definition try_finally :: "'a io \<Rightarrow> unit io \<Rightarrow> 'a io" where
  "try_finally m fin = (\<lambda>n.
     case m n of (r, t) \<Rightarrow>
       (case fin (n + length t) of
          (Inl e, t') \<Rightarrow> (Inl e, t @ t')
        | (Inr u, t') \<Rightarrow> (r, t @ t')))"

text \<open>\<^verbatim>\<open>try { m } catch (err) { handler }\<close>\<close>

definition try_catch :: "'a io \<Rightarrow> (error \<Rightarrow> 'a io) \<Rightarrow> 'a io" where
  "try_catch m handler = (\<lambda>n.
     case m n of
       (Inl e, t) \<Rightarrow> (case handler e (n + length t) of (r, t') \<Rightarrow> (r, t @ t'))
     | (Inr x, t) \<Rightarrow> (Inr x, t))"

text \<open>\<^verbatim>\<open>if (b) { m }\<close> with no else branch.\<close>

definition io_when :: "bool \<Rightarrow> unit io \<Rightarrow> unit io" where
  "io_when b m = (if b then m else io_return ())"

definition invoke :: "(nat \<Rightarrow> call \<Rightarrow> error + 'a) \<Rightarrow> ('a \<Rightarrow> val) \<Rightarrow> call \<Rightarrow> 'a io" where
  "invoke oracle wrap c = (\<lambda>n. (oracle n c, [(c, map_sum id wrap (oracle n c))]))"

definition call_void :: "env \<Rightarrow> call \<Rightarrow> unit io" where
  "call_void E = invoke (void_result E) (\<lambda>u. VUnit)"

definition call_bool :: "env \<Rightarrow> call \<Rightarrow> bool io" where
  "call_bool E = invoke (bool_result E) VBool"

definition call_string :: "env \<Rightarrow> call \<Rightarrow> string io" where
  "call_string E = invoke (string_result E) VString"

definition call_strings :: "env \<Rightarrow> call \<Rightarrow> string list io" where
  "call_strings E = invoke (strings_result E) VStrings"

definition call_git :: "env \<Rightarrow> call \<Rightarrow> git io" where
  "call_git E = invoke (git_result E) VGit"

definition call_checkoutInfo :: "env \<Rightarrow> call \<Rightarrow> checkoutInfo io" where
  "call_checkoutInfo E = invoke (checkoutInfo_result E) VCheckoutInfo"

section \<open>git-source-provider.ts\<close>

subsection \<open>getGitCommandManager\<close>

definition getGitCommandManager :: "env \<Rightarrow> string \<Rightarrow> bool \<Rightarrow> git option io" where
  "getGitCommandManager E path lfs_flag =
     try_catch
       (io_bind (call_git E (CreateCommandManager path lfs_flag)) (\<lambda>g. io_return (Some g)))
       (\<lambda>err. if lfs_flag then io_throw err else io_return None)"

subsection \<open>The two errors that getSource throws itself\<close>

definition submodulesNotSupported :: "env \<Rightarrow> error" where
  "submodulesNotSupported E = Error
     (''Input 'submodules' not supported when falling back to download using the GitHub REST API. To create a local Git repository instead, add Git ''
      @ MinimumGitVersion E @ '' or higher to the PATH.'')"

definition sshKeyNotSupported :: "env \<Rightarrow> error" where
  "sshKeyNotSupported E = Error
     (''Input 'ssh-key' not supported when falling back to download using the GitHub REST API. To create a local Git repository instead, add Git ''
      @ MinimumGitVersion E @ '' or higher to the PATH.'')"

subsection \<open>getSource, block by block\<close>

text \<open>
  Logging (\<^verbatim>\<open>core.info\<close>, \<^verbatim>\<open>core.startGroup\<close>, \<^verbatim>\<open>core.endGroup\<close>, \<^verbatim>\<open>core.warning\<close>,
  \<^verbatim>\<open>core.debug\<close>) is left out. Each block below is a run of consecutive statements of
  \<^verbatim>\<open>getSource\<close>, named after the comment that opens it in the source.
\<close>

text \<open>Lines 22-32: remove a conflicting file path, create the directory; returns \<^verbatim>\<open>isExisting\<close>.\<close>

definition createDirectory :: "env \<Rightarrow> settings \<Rightarrow> bool io" where
  "createDirectory E s =
     io_bind (call_bool E (FileExistsSync (repositoryPath s))) (\<lambda>isFile.
     io_bind (io_when isFile (call_void E (RmRF (repositoryPath s)))) (\<lambda>_.
     io_bind (call_bool E (DirectoryExistsSync (repositoryPath s))) (\<lambda>isDirectory.
     io_bind (io_when (\<not> isDirectory) (call_void E (MkdirP (repositoryPath s)))) (\<lambda>_.
     io_return isDirectory))))"

text \<open>
  Lines 22-48: the directory is created, the command manager is requested, and an
  existing directory is prepared; the block returns \<^verbatim>\<open>git\<close>, which is
  \<^verbatim>\<open>undefined\<close> (\<open>None\<close>) when there is no native client.
\<close>

definition prepareDirectory :: "env \<Rightarrow> settings \<Rightarrow> git option io" where
  "prepareDirectory E s =
     io_bind (createDirectory E s) (\<lambda>isExisting.
     io_bind (getGitCommandManager E (repositoryPath s) (lfs s)) (\<lambda>git.
     io_bind (io_when isExisting
                (call_void E (PrepareExistingDirectory git (repositoryPath s)
                   (getFetchUrl E s) (clean s) (ref s)))) (\<lambda>_.
     io_return git)))"

text \<open>Lines 50-75: the branch \<^verbatim>\<open>if (!git)\<close>, download with the REST API.\<close>

definition downloadUsingRestApi :: "env \<Rightarrow> settings \<Rightarrow> unit io" where
  "downloadUsingRestApi E s =
     (if submodules s then io_throw (submodulesNotSupported E)
      else if sshKey s \<noteq> [] then io_throw (sshKeyNotSupported E)
      else call_void E (DownloadRepository (authToken s) (repositoryOwner s)
             (repositoryName s) (ref s) (commit s) (repositoryPath s)))"

text \<open>
  Lines 77-97: save the state for the POST action, initialize the repository, disable
  automatic garbage collection (a false answer only logs a warning).
\<close>

definition initializeRepository :: "env \<Rightarrow> settings \<Rightarrow> git \<Rightarrow> string \<Rightarrow> unit io" where
  "initializeRepository E s g repositoryUrl =
     io_bind (call_void E (SetRepositoryPath (repositoryPath s))) (\<lambda>_.
     io_bind (call_bool E (DirectoryExistsSync (pathJoin E (repositoryPath s) ''.git''))) (\<lambda>hasGitDir.
     io_bind (io_when (\<not> hasGitDir)
                (io_bind (call_void E (Init g)) (\<lambda>_.
                 call_void E (RemoteAdd g ''origin'' repositoryUrl)))) (\<lambda>_.
     io_bind (call_bool E (TryDisableAutomaticGarbageCollection g)) (\<lambda>_.
     io_return ()))))"

text \<open>
  Lines 106-119: determine the default branch. The condition is
  \<^verbatim>\<open>(!ref && !commit) || (ref && !(await git.remoteBranchExists(ref)))\<close>, evaluated
  left to right with short-circuit. The block returns the settings, with \<^verbatim>\<open>ref\<close>
  overwritten when the lookup ran.
\<close>

definition determineDefaultBranch :: "env \<Rightarrow> settings \<Rightarrow> git \<Rightarrow> string \<Rightarrow> settings io" where
  "determineDefaultBranch E s g repositoryUrl =
     io_bind (if ref s = [] \<and> commit s = [] then io_return True
              else if ref s \<noteq> [] then
                io_bind (call_bool E (RemoteBranchExists g (ref s))) (\<lambda>isBranch.
                io_return (\<not> isBranch))
              else io_return False) (\<lambda>lookup.
     if lookup then
       io_bind (if sshKey s \<noteq> [] then call_string E (GitGetDefaultBranch g repositoryUrl)
                else call_string E (ApiGetDefaultBranch (authToken s) (repositoryOwner s)
                       (repositoryName s))) (\<lambda>branch.
       io_return (s\<lparr>ref := branch\<rparr>))
     else io_return s)"

text \<open>Lines 126-146: fetch.\<close>

definition fetchRepository :: "env \<Rightarrow> settings \<Rightarrow> git \<Rightarrow> unit io" where
  "fetchRepository E s g =
     (if fetchDepth s \<le> 0 then
        io_bind (call_void E (Fetch g (getRefSpecForAllHistory E (ref s) (commit s)) None)) (\<lambda>_.
        io_bind (call_bool E (TestRef g (ref s) (commit s))) (\<lambda>matches.
        io_when (\<not> matches)
          (call_void E (Fetch g (getRefSpec E (ref s) (commit s)) None))))
      else
        call_void E (Fetch g (getRefSpec E (ref s) (commit s)) (Some (fetchDepth s))))"

text \<open>\<^verbatim>\<open>info.startPoint || info.ref\<close>\<close>

definition startPointOrRef :: "checkoutInfo \<Rightarrow> string" where
  "startPointOrRef info = (if startPoint info \<noteq> [] then startPoint info else info_ref info)"

text \<open>Lines 148-169: checkout info, LFS fetch, checkout.\<close>

definition checkoutRef :: "env \<Rightarrow> settings \<Rightarrow> git \<Rightarrow> unit io" where
  "checkoutRef E s g =
     io_bind (call_checkoutInfo E (GetCheckoutInfo g (ref s) (commit s))) (\<lambda>info.
     io_bind (io_when (lfs s) (call_void E (LfsFetch g (startPointOrRef info)))) (\<lambda>_.
     call_void E (Checkout g (info_ref info) (startPoint info))))"

text \<open>Lines 205-234: the body of the loop over the submodules list.\<close>

definition checkoutSubmoduleRemoteBranch :: "env \<Rightarrow> settings \<Rightarrow> string \<Rightarrow> unit io" where
  "checkoutSubmoduleRemoteBranch E s sub =
     io_bind (getGitCommandManager E (repositoryPath s @ ''/'' @ sub) (lfs s)) (\<lambda>subGit.
     case subGit of
       None \<Rightarrow> io_return ()
     | Some sg \<Rightarrow>
         io_bind (call_bool E (RemoteBranchExists sg (submodulesRemoteBranch s))) (\<lambda>isBranch.
         io_when isBranch
           (io_bind (io_when (lfs s) (call_void E (LfsInstall sg))) (\<lambda>_.
            io_bind (io_when (fetchDepth s > 0)
                       (call_void E (Fetch sg (getRefSpec E (submodulesRemoteBranch s) [])
                          (Some (fetchDepth s))))) (\<lambda>_.
            io_bind (call_checkoutInfo E
                       (GetCheckoutInfo sg (submodulesRemoteBranch s) [])) (\<lambda>subInfo.
            io_bind (io_when (lfs s)
                       (call_void E (LfsFetch sg (startPointOrRef subInfo)))) (\<lambda>_.
            call_void E (Checkout sg (info_ref subInfo) (startPoint subInfo)))))))))"

text \<open>Line 204: \<^verbatim>\<open>for (let sub of submodulesList)\<close>\<close>

fun checkoutSubmodulesRemoteBranch :: "env \<Rightarrow> settings \<Rightarrow> string list \<Rightarrow> unit io" where
  "checkoutSubmodulesRemoteBranch E s [] = io_return ()"
| "checkoutSubmodulesRemoteBranch E s (sub # subs) =
     io_bind (checkoutSubmoduleRemoteBranch E s sub) (\<lambda>_.
     checkoutSubmodulesRemoteBranch E s subs)"

text \<open>Lines 174-237: the body of the inner \<^verbatim>\<open>try\<close>.\<close>

definition checkoutSubmodules :: "env \<Rightarrow> settings \<Rightarrow> git \<Rightarrow> unit io" where
  "checkoutSubmodules E s g =
     io_bind (call_void E (ConfigureGlobalAuth g)) (\<lambda>_.
     io_bind (call_void E (SubmoduleSync g (nestedSubmodules s))) (\<lambda>_.
     io_bind (call_void E (SubmoduleUpdate g (fetchDepth s) (nestedSubmodules s))) (\<lambda>_.
     io_bind (call_string E (SubmoduleForeach g ''git config --local gc.auto 0''
                (nestedSubmodules s))) (\<lambda>_.
     io_bind (io_when (persistCredentials s \<or> submodulesRemoteBranch s \<noteq> [])
                (call_void E (ConfigureSubmoduleAuth g))) (\<lambda>_.
     io_when (submodulesRemoteBranch s \<noteq> [])
       (io_bind (call_strings E (GetSubmodulesList g)) (\<lambda>submodulesList.
        checkoutSubmodulesRemoteBranch E s submodulesList)))))))"

text \<open>Lines 172-242: submodules, inside their own \<^verbatim>\<open>try ... finally\<close>.\<close>

definition fetchSubmodules :: "env \<Rightarrow> settings \<Rightarrow> git \<Rightarrow> unit io" where
  "fetchSubmodules E s g =
     io_when (submodules s)
       (try_finally (checkoutSubmodules E s g) (call_void E (RemoveGlobalAuth g)))"

text \<open>Lines 244-258: commit information and the check of the pull request merge commit.\<close>

definition checkCommit :: "env \<Rightarrow> settings \<Rightarrow> git \<Rightarrow> unit io" where
  "checkCommit E s g =
     io_bind (call_string E (Log1 g None)) (\<lambda>commitInfo.
     io_bind (call_string E (Log1 g (Some (''--format='%H'' @ [CHR 0x27])))) (\<lambda>_.
     call_void E (CheckCommitInfo (authToken s) commitInfo (repositoryOwner s)
       (repositoryName s) (ref s) (commit s))))"

text \<open>
  Lines 121-258: the rest of the outer \<^verbatim>\<open>try\<close> body, run with the settings as they are
  once \<^verbatim>\<open>settings.ref\<close> has its final value.
\<close>

definition fetchAndCheckout :: "env \<Rightarrow> settings \<Rightarrow> git \<Rightarrow> unit io" where
  "fetchAndCheckout E s g =
     io_bind (io_when (lfs s) (call_void E (LfsInstall g))) (\<lambda>_.
     io_bind (fetchRepository E s g) (\<lambda>_.
     io_bind (checkoutRef E s g) (\<lambda>_.
     io_bind (fetchSubmodules E s g) (\<lambda>_.
     checkCommit E s g))))"

text \<open>Lines 101-258: the body of the outer \<^verbatim>\<open>try\<close>.\<close>

definition acquire :: "env \<Rightarrow> settings \<Rightarrow> git \<Rightarrow> string \<Rightarrow> unit io" where
  "acquire E s g repositoryUrl =
     io_bind (call_void E (ConfigureAuth g)) (\<lambda>_.
     io_bind (determineDefaultBranch E s g repositoryUrl) (\<lambda>s.
     fetchAndCheckout E s g))"

text \<open>Lines 259-266: the outer \<^verbatim>\<open>finally\<close>.\<close>

definition removeAuthUnlessPersisted :: "env \<Rightarrow> settings \<Rightarrow> git \<Rightarrow> unit io" where
  "removeAuthUnlessPersisted E s g =
     io_when (\<not> persistCredentials s) (call_void E (RemoveAuth g))"

subsection \<open>getSource\<close>

definition getSource :: "env \<Rightarrow> settings \<Rightarrow> unit io" where
  "getSource E s =
     io_bind (prepareDirectory E s) (\<lambda>git.
     case git of
       None \<Rightarrow> downloadUsingRestApi E s
     | Some g \<Rightarrow>
         io_bind (initializeRepository E s g (getFetchUrl E s)) (\<lambda>_.
         try_finally (acquire E s g (getFetchUrl E s))
           (removeAuthUnlessPersisted E s g)))"

definition override_calls :: "env \<Rightarrow> settings \<Rightarrow> call set" where
  "override_calls E s =
     {c. (\<exists>sub. c = CreateCommandManager (repositoryPath s @ ''/'' @ sub) (lfs s))
       \<or> (\<exists>sg. c = RemoteBranchExists sg (submodulesRemoteBranch s))
       \<or> (\<exists>sg. c = LfsInstall sg)
       \<or> (\<exists>sg. c = Fetch sg (getRefSpec E (submodulesRemoteBranch s) []) (Some (fetchDepth s))
              \<and> fetchDepth s > 0)
       \<or> (\<exists>sg. c = GetCheckoutInfo sg (submodulesRemoteBranch s) [])
       \<or> (\<exists>sg a. c = LfsFetch sg a)
       \<or> (\<exists>sg a b. c = Checkout sg a b)}"

definition directory_calls :: "env \<Rightarrow> settings \<Rightarrow> call set" where
  "directory_calls E s =
     {FileExistsSync (repositoryPath s), RmRF (repositoryPath s),
      DirectoryExistsSync (repositoryPath s), MkdirP (repositoryPath s),
      CreateCommandManager (repositoryPath s) (lfs s)}
     \<union> {c. \<exists>git. c = PrepareExistingDirectory git (repositoryPath s) (getFetchUrl E s)
                      (clean s) (ref s)}"

definition initialize_calls :: "env \<Rightarrow> settings \<Rightarrow> git \<Rightarrow> call set" where
  "initialize_calls E s g =
     {SetRepositoryPath (repositoryPath s),
      DirectoryExistsSync (pathJoin E (repositoryPath s) ''.git''), Init g,
      RemoteAdd g ''origin'' (getFetchUrl E s), TryDisableAutomaticGarbageCollection g}"

definition acquire_calls :: "settings \<Rightarrow> git \<Rightarrow> call set" where
  "acquire_calls s g =
     {c. c = ConfigureAuth g
       \<or> (\<exists>sub. c = CreateCommandManager (repositoryPath s @ ''/'' @ sub) (lfs s))
       \<or> (\<exists>sg a. c = RemoteBranchExists sg a)
       \<or> (\<exists>a. c = GitGetDefaultBranch g a)
       \<or> (\<exists>a b d. c = ApiGetDefaultBranch a b d)
       \<or> (\<exists>sg. c = LfsInstall sg)
       \<or> (\<exists>sg a b. c = Fetch sg a b)
       \<or> (\<exists>a b. c = TestRef g a b)
       \<or> (\<exists>sg a b. c = GetCheckoutInfo sg a b)
       \<or> (\<exists>sg a. c = LfsFetch sg a)
       \<or> (\<exists>sg a b. c = Checkout sg a b)
       \<or> c = ConfigureGlobalAuth g
       \<or> (\<exists>a. c = SubmoduleSync g a)
       \<or> (\<exists>a b. c = SubmoduleUpdate g a b)
       \<or> (\<exists>a b. c = SubmoduleForeach g a b)
       \<or> c = ConfigureSubmoduleAuth g
       \<or> c = GetSubmodulesList g
       \<or> c = RemoveGlobalAuth g
       \<or> (\<exists>a. c = Log1 g a)
       \<or> (\<exists>a b d e f h. c = CheckCommitInfo a b d e f h)}"

definition early_calls :: "env \<Rightarrow> settings \<Rightarrow> call set" where
  "early_calls E s =
     directory_calls E s
     \<union> {DownloadRepository (authToken s) (repositoryOwner s) (repositoryName s) (ref s)
          (commit s) (repositoryPath s)}
     \<union> (\<Union>g. initialize_calls E s g) \<union> range ConfigureAuth \<union> range RemoveAuth"

text \<open>Kinds of calls, for the statements about the order of calls.\<close>

fun is_fetch :: "call \<Rightarrow> bool" where
  "is_fetch (Fetch g refSpec depth) = True"
| "is_fetch _ = False"

fun is_lookup :: "call \<Rightarrow> bool" where
  "is_lookup (GitGetDefaultBranch g url) = True"
| "is_lookup (ApiGetDefaultBranch token owner name) = True"
| "is_lookup _ = False"

fun is_submodule_call :: "call \<Rightarrow> bool" where
  "is_submodule_call (ConfigureGlobalAuth g) = True"
| "is_submodule_call (SubmoduleSync g recursive) = True"
| "is_submodule_call (SubmoduleUpdate g depth recursive) = True"
| "is_submodule_call (SubmoduleForeach g command recursive) = True"
| "is_submodule_call (ConfigureSubmoduleAuth g) = True"
| "is_submodule_call (GetSubmodulesList g) = True"
| "is_submodule_call (RemoveGlobalAuth g) = True"
| "is_submodule_call _ = False"


definition fetches :: "trace \<Rightarrow> call list" where
  "fetches t = filter is_fetch (map fst t)"

definition lookups :: "trace \<Rightarrow> call list" where
  "lookups t = filter is_lookup (map fst t)"

text \<open>
  Lines 127-144: the first fetch of the repository when \<^verbatim>\<open>settings.ref\<close> is \<open>b\<close>.
\<close>

definition first_fetch :: "env \<Rightarrow> settings \<Rightarrow> git \<Rightarrow> string \<Rightarrow> call" where
  "first_fetch E s g b =
     (if fetchDepth s \<le> 0 then Fetch g (getRefSpecForAllHistory E b (commit s)) None
      else Fetch g (getRefSpec E b (commit s)) (Some (fetchDepth s)))"

text \<open>
  What may follow the fetch of the repository: no lookup of the default branch, and no
  fetch other than the fetch of the override branch in a submodule.
\<close>

definition later_event :: "env \<Rightarrow> settings \<Rightarrow> event \<Rightarrow> bool" where
  "later_event E s ev \<longleftrightarrow> \<not> is_lookup (fst ev)
     \<and> (is_fetch (fst ev) \<longrightarrow> submodules s \<and> submodulesRemoteBranch s \<noteq> [] \<and> 0 < fetchDepth s
          \<and> (\<exists>sg. fst ev = Fetch sg (getRefSpec E (submodulesRemoteBranch s) [])
                 (Some (fetchDepth s))))"

text \<open>
  Sequencing, as a relation: after a step that ended with \<open>r\<close>, the next step \<open>f\<close> runs
  exactly when \<open>r\<close> is a value; otherwise the error goes on and nothing is called.
\<close>

definition continues :: "(error + 'a) \<Rightarrow> ('a \<Rightarrow> 'b io) \<Rightarrow> nat \<Rightarrow> (error + 'b) \<times> trace \<Rightarrow> bool" where
  "continues r f n res =
     (case r of Inl e \<Rightarrow> res = (Inl e, []) | Inr x \<Rightarrow> f x n = res)"

definition env_ok :: env where
  "env_ok = \<lparr> getFetchUrl = (\<lambda>s. ''https://github.com/'' @ repositoryOwner s @ ''/'' @ repositoryName s),
      pathJoin = (\<lambda>a b. a @ ''/'' @ b),
      getRefSpec = (\<lambda>r c. [r, c]),
      getRefSpecForAllHistory = (\<lambda>r c. [''*'', r, c]),
      MinimumGitVersion = ''2.18'',
      void_result = (\<lambda>n c. Inr ()),
      bool_result = (\<lambda>n c. Inr (case c of RemoteBranchExists g b \<Rightarrow> b = ''main''
                                   | TestRef g r c \<Rightarrow> False | _ \<Rightarrow> True)),
      string_result = (\<lambda>n c. Inr ''main''),
      strings_result = (\<lambda>n c. Inr [''a'', ''b'']),
      git_result = (\<lambda>n c. Inr (GitCommandManager n)),
      checkoutInfo_result = (\<lambda>n c. Inr (case c of GetCheckoutInfo g r c \<Rightarrow> CheckoutInfo r ''origin''
                                           | _ \<Rightarrow> CheckoutInfo [] [])) \<rparr>"

definition settings_tag :: settings where
  "settings_tag = \<lparr> repositoryOwner = ''o'', repositoryName = ''r'', repositoryPath = ''/w'',
      ref = ''v1'', commit = [], clean = True, fetchDepth = 0, lfs = False,
      submodules = False, nestedSubmodules = False, authToken = ''t'', sshKey = [],
      persistCredentials = False, submodulesRemoteBranch = [] \<rparr>"

definition env_nogit :: env where
  "env_nogit = env_ok \<lparr> git_result := (\<lambda>n c. Inl (Error ''git not found'')) \<rparr>"

definition settings_sub :: settings where
  "settings_sub = settings_tag \<lparr> ref := ''main'', fetchDepth := 1, submodules := True,
      submodulesRemoteBranch := ''dev'' \<rparr>"

definition env_sub :: env where
  "env_sub = env_ok \<lparr> bool_result := (\<lambda>n c. Inr (case c of
       RemoteBranchExists g b \<Rightarrow> b = ''main'' \<or> g = GitCommandManager 19
     | TestRef g r c \<Rightarrow> False | _ \<Rightarrow> True)) \<rparr>"

section \<open>Reasoning about runs\<close>

lemma io_bindE:
  assumes "io_bind m f n = (r, t)"
  obtains (throws) e where "m n = (Inl e, t)" "r = Inl e"
        | (returns) x t1 t2 where "m n = (Inr x, t1)" "f x (n + length t1) = (r, t2)" "t = t1 @ t2"
  using assms unfolding io_bind_def by (auto split: prod.splits sum.splits)

lemma try_finallyE:
  assumes "try_finally m fin n = (r, t)"
  obtains r1 t1 r2 t2 where "m n = (r1, t1)" "fin (n + length t1) = (r2, t2)" "t = t1 @ t2"
    "r = (case r2 of Inl e \<Rightarrow> Inl e | Inr u \<Rightarrow> r1)"
  using assms unfolding try_finally_def by (force split: prod.splits sum.splits)

lemma io_returnE:
  assumes "io_return x n = (r, t)"
  obtains "r = Inr x" "t = []"
  using assms unfolding io_return_def by auto

lemma io_throwE:
  assumes "io_throw e n = (r, t)"
  obtains "r = Inl e" "t = []"
  using assms unfolding io_throw_def by auto

lemma invokeE:
  assumes "invoke oracle wrap c n = (r, t)"
  obtains (throws) e where "oracle n c = Inl e" "r = Inl e" "t = [(c, Inl e)]"
        | (returns) x where "oracle n c = Inr x" "r = Inr x" "t = [(c, Inr (wrap x))]"
  using assms unfolding invoke_def by (cases "oracle n c") auto

lemma call_voidE:
  assumes "call_void E c n = (r, t)"
  obtains (throws) e where "void_result E n c = Inl e" "r = Inl e" "t = [(c, Inl e)]"
        | (returns) "void_result E n c = Inr ()" "r = Inr ()" "t = [(c, Inr VUnit)]"
  using assms unfolding call_void_def by (elim invokeE) auto

lemma call_boolE:
  assumes "call_bool E c n = (r, t)"
  obtains (throws) e where "bool_result E n c = Inl e" "r = Inl e" "t = [(c, Inl e)]"
        | (returns) b where "bool_result E n c = Inr b" "r = Inr b" "t = [(c, Inr (VBool b))]"
  using assms unfolding call_bool_def by (elim invokeE) auto

lemma call_stringE:
  assumes "call_string E c n = (r, t)"
  obtains (throws) e where "string_result E n c = Inl e" "r = Inl e" "t = [(c, Inl e)]"
        | (returns) x where "string_result E n c = Inr x" "r = Inr x" "t = [(c, Inr (VString x))]"
  using assms unfolding call_string_def by (elim invokeE) auto

lemma call_stringsE:
  assumes "call_strings E c n = (r, t)"
  obtains (throws) e where "strings_result E n c = Inl e" "r = Inl e" "t = [(c, Inl e)]"
        | (returns) x where "strings_result E n c = Inr x" "r = Inr x" "t = [(c, Inr (VStrings x))]"
  using assms unfolding call_strings_def by (elim invokeE) auto

lemma call_checkoutInfoE:
  assumes "call_checkoutInfo E c n = (r, t)"
  obtains (throws) e where "checkoutInfo_result E n c = Inl e" "r = Inl e" "t = [(c, Inl e)]"
        | (returns) x where "checkoutInfo_result E n c = Inr x" "r = Inr x"
            "t = [(c, Inr (VCheckoutInfo x))]"
  using assms unfolding call_checkoutInfo_def by (elim invokeE) auto

lemma getGitCommandManagerE:
  assumes "getGitCommandManager E p l n = (r, t)"
  obtains (constructed) g where "git_result E n (CreateCommandManager p l) = Inr g"
      "r = Inr (Some g)" "t = [(CreateCommandManager p l, Inr (VGit g))]"
    | (fallback) e where "git_result E n (CreateCommandManager p l) = Inl e" "\<not> l"
      "r = Inr None" "t = [(CreateCommandManager p l, Inl e)]"
    | (fatal) e where "git_result E n (CreateCommandManager p l) = Inl e" "l"
      "r = Inl e" "t = [(CreateCommandManager p l, Inl e)]"
  using assms unfolding getGitCommandManager_def try_catch_def io_bind_def call_git_def invoke_def
    io_return_def io_throw_def
  by (cases "git_result E n (CreateCommandManager p l)") (auto split: if_splits)



lemma io_whenE:
  assumes "io_when b m n = (r, t)"
  obtains (run) "b" "m n = (r, t)" | (skip) "\<not> b" "r = Inr ()" "t = []"
  using assms unfolding io_when_def io_return_def by (auto split: if_splits)

lemmas runE = io_bindE try_finallyE io_returnE io_throwE io_whenE call_voidE call_boolE call_stringE
  call_stringsE call_checkoutInfoE getGitCommandManagerE

subsection \<open>The calls of each block\<close>

lemma createDirectory_calls:
  assumes "createDirectory E s n = (r, t)" "ev \<in> set t"
  shows "fst ev \<in> {FileExistsSync (repositoryPath s), RmRF (repositoryPath s),
           DirectoryExistsSync (repositoryPath s), MkdirP (repositoryPath s)}"
  using assms unfolding createDirectory_def by (auto elim!: runE)

lemma downloadUsingRestApi_calls:
  assumes "downloadUsingRestApi E s n = (r, t)" "ev \<in> set t"
  shows "fst ev = DownloadRepository (authToken s) (repositoryOwner s) (repositoryName s)
           (ref s) (commit s) (repositoryPath s)"
  using assms unfolding downloadUsingRestApi_def by (auto elim!: runE split: if_splits)

lemma initializeRepository_calls:
  assumes "initializeRepository E s g url n = (r, t)" "ev \<in> set t"
  shows "fst ev \<in> {SetRepositoryPath (repositoryPath s),
           DirectoryExistsSync (pathJoin E (repositoryPath s) ''.git''), Init g,
           RemoteAdd g ''origin'' url, TryDisableAutomaticGarbageCollection g}"
  using assms unfolding initializeRepository_def by (auto elim!: runE)

lemma determineDefaultBranch_calls:
  assumes "determineDefaultBranch E s g url n = (r, t)" "ev \<in> set t"
  shows "fst ev \<in> {RemoteBranchExists g (ref s), GitGetDefaultBranch g url,
           ApiGetDefaultBranch (authToken s) (repositoryOwner s) (repositoryName s)}"
  using assms unfolding determineDefaultBranch_def by (auto elim!: runE split: if_splits)

lemma determineDefaultBranch_result:
  assumes "determineDefaultBranch E s g url n = (Inr s', t)"
  shows "s' = s\<lparr>ref := ref s'\<rparr>"
  using assms unfolding determineDefaultBranch_def
  by (auto elim!: runE split: if_splits)

lemma fetchRepository_calls:
  assumes "fetchRepository E s g n = (r, t)" "ev \<in> set t"
  shows "fst ev \<in> {Fetch g (getRefSpecForAllHistory E (ref s) (commit s)) None,
           TestRef g (ref s) (commit s), Fetch g (getRefSpec E (ref s) (commit s)) None,
           Fetch g (getRefSpec E (ref s) (commit s)) (Some (fetchDepth s))}"
  using assms unfolding fetchRepository_def by (auto elim!: runE split: if_splits)

lemma checkoutRef_calls:
  assumes "checkoutRef E s g n = (r, t)" "ev \<in> set t"
  shows "(\<exists>a b. fst ev \<in> {GetCheckoutInfo g (ref s) (commit s), LfsFetch g a, Checkout g a b})"
  using assms unfolding checkoutRef_def by (auto elim!: runE)

lemma checkCommit_calls:
  assumes "checkCommit E s g n = (r, t)" "ev \<in> set t"
  shows "(\<exists>a b. fst ev \<in> {Log1 g a, CheckCommitInfo (authToken s) b (repositoryOwner s)
            (repositoryName s) (ref s) (commit s)})"
  using assms unfolding checkCommit_def by (auto elim!: runE)

lemma checkoutSubmoduleRemoteBranch_calls:
  assumes "checkoutSubmoduleRemoteBranch E s sub n = (r, t)" "ev \<in> set t"
  shows "fst ev \<in> override_calls E s"
  using assms unfolding checkoutSubmoduleRemoteBranch_def override_calls_def
  by (auto elim!: runE split: option.splits)

lemma checkoutSubmodulesRemoteBranch_calls:
  assumes "checkoutSubmodulesRemoteBranch E s subs n = (r, t)" "ev \<in> set t"
  shows "fst ev \<in> override_calls E s"
  using assms
proof (induction subs arbitrary: n r t)
  case Nil
  then show ?case by (auto elim!: runE)
next
  case (Cons sub subs)
  from Cons.prems show ?case
    by (auto elim!: io_bindE dest: checkoutSubmoduleRemoteBranch_calls Cons.IH)
qed

lemma fetchSubmodules_calls:
  assumes "fetchSubmodules E s g n = (r, t)" "ev \<in> set t"
  shows "fst ev \<in> {ConfigureGlobalAuth g, SubmoduleSync g (nestedSubmodules s),
            SubmoduleUpdate g (fetchDepth s) (nestedSubmodules s),
            SubmoduleForeach g ''git config --local gc.auto 0'' (nestedSubmodules s),
            ConfigureSubmoduleAuth g, GetSubmodulesList g, RemoveGlobalAuth g}
         \<union> override_calls E s"
  using assms unfolding fetchSubmodules_def checkoutSubmodules_def
  by (auto elim!: runE dest: checkoutSubmodulesRemoteBranch_calls)

lemma prepareDirectory_calls:
  assumes "prepareDirectory E s n = (r, t)"
  shows "fst ` set t \<subseteq> directory_calls E s"
  using assms unfolding prepareDirectory_def directory_calls_def
  by (auto elim!: runE dest: createDirectory_calls)

lemma prepareDirectory_Some:
  assumes "prepareDirectory E s n = (Inr (Some g), t)"
  shows "(CreateCommandManager (repositoryPath s) (lfs s), Inr (VGit g)) \<in> set t"
  using assms unfolding prepareDirectory_def
  by (auto elim!: runE)

lemma prepareDirectory_None:
  assumes "prepareDirectory E s n = (Inr None, t)"
  shows "\<not> lfs s \<and> (\<exists>e. (CreateCommandManager (repositoryPath s) (lfs s), Inl e) \<in> set t)"
  using assms unfolding prepareDirectory_def
  by (auto elim!: runE)


lemma determineDefaultBranch_fields:
  assumes "determineDefaultBranch E s g url n = (Inr s', t)"
  shows "repositoryPath s' = repositoryPath s" "lfs s' = lfs s" "commit s' = commit s"
    "fetchDepth s' = fetchDepth s" "submodules s' = submodules s"
    "persistCredentials s' = persistCredentials s"
    "submodulesRemoteBranch s' = submodulesRemoteBranch s"
    "nestedSubmodules s' = nestedSubmodules s" "authToken s' = authToken s"
    "repositoryOwner s' = repositoryOwner s" "repositoryName s' = repositoryName s"
    "sshKey s' = sshKey s"
  using assms unfolding determineDefaultBranch_def
  by (auto elim!: runE split: if_splits)

lemma fetchAndCheckout_calls:
  assumes "fetchAndCheckout E s' g n = (r, t)" "ev \<in> set t"
    and "repositoryPath s' = repositoryPath s" "lfs s' = lfs s"
  shows "fst ev \<in> acquire_calls s g"
proof -
  have 1: "fst ev \<in> acquire_calls s g" if "fetchRepository E s' g n = (r, t)" "ev \<in> set t"
    for n r t ev
    using fetchRepository_calls [OF that] by (auto simp: acquire_calls_def)
  have 2: "fst ev \<in> acquire_calls s g" if "checkoutRef E s' g n = (r, t)" "ev \<in> set t"
    for n r t ev
    using checkoutRef_calls [OF that] by (auto simp: acquire_calls_def)
  have 3: "fst ev \<in> acquire_calls s g" if "fetchSubmodules E s' g n = (r, t)" "ev \<in> set t"
    for n r t ev
    using fetchSubmodules_calls [OF that] assms(3,4)
    by (auto simp: acquire_calls_def override_calls_def)
  have 4: "fst ev \<in> acquire_calls s g" if "checkCommit E s' g n = (r, t)" "ev \<in> set t"
    for n r t ev
    using checkCommit_calls [OF that] by (auto simp: acquire_calls_def)
  have 5: "LfsInstall g \<in> acquire_calls s g"
    by (simp add: acquire_calls_def)
  show ?thesis
    using assms(1,2) unfolding fetchAndCheckout_def
    by (auto elim!: io_bindE io_whenE call_voidE dest: 1 2 3 4 simp: 5)
qed

lemma acquire_calls:
  assumes "acquire E s g url n = (r, t)" "ev \<in> set t"
  shows "fst ev \<in> acquire_calls s g"
proof -
  have 1: "fst ev \<in> acquire_calls s g" if "determineDefaultBranch E s g url n = (r, t)" "ev \<in> set t"
    for n r t ev
    using determineDefaultBranch_calls [OF that] by (auto simp: acquire_calls_def)
  have 2: "fst ev \<in> acquire_calls s g"
    if "determineDefaultBranch E s g url n = (Inr s', t1)"
      "fetchAndCheckout E s' g m = (r, t)" "ev \<in> set t"
    for n m s' t1 r t ev
    using fetchAndCheckout_calls [OF that(2,3)] determineDefaultBranch_fields(1,2) [OF that(1)]
    by simp
  have 5: "ConfigureAuth g \<in> acquire_calls s g"
    by (simp add: acquire_calls_def)
  show ?thesis
    using assms(1,2) unfolding acquire_def
    by (auto elim!: io_bindE call_voidE intro: 1 2 simp: 5)
qed


lemma getSource_cases:
  assumes "getSource E s n = (r, t)"
  obtains (failed_early) e where "prepareDirectory E s n = (Inl e, t)" "r = Inl e"
    | (rest_api) t0 t1 where "prepareDirectory E s n = (Inr None, t0)"
        "downloadUsingRestApi E s (n + length t0) = (r, t1)" "t = t0 @ t1"
    | (init_failed) g t0 t1 e where "prepareDirectory E s n = (Inr (Some g), t0)"
        "initializeRepository E s g (getFetchUrl E s) (n + length t0) = (Inl e, t1)"
        "t = t0 @ t1" "r = Inl e"
    | (native) g t0 t1 ra ta rf tf where "prepareDirectory E s n = (Inr (Some g), t0)"
        "initializeRepository E s g (getFetchUrl E s) (n + length t0) = (Inr (), t1)"
        "acquire E s g (getFetchUrl E s) (n + length t0 + length t1) = (ra, ta)"
        "removeAuthUnlessPersisted E s g (n + length t0 + length t1 + length ta) = (rf, tf)"
        "t = t0 @ t1 @ ta @ tf" "r = (case rf of Inl e \<Rightarrow> Inl e | Inr u \<Rightarrow> ra)"
  using assms unfolding getSource_def
  by (elim io_bindE) (auto elim!: io_bindE try_finallyE split: option.splits)


lemma prepareDirectory_constructed:
  assumes "prepareDirectory E s n = (r, t)"
    "(CreateCommandManager (repositoryPath s) (lfs s), Inr v) \<in> set t"
  shows "\<exists>g. v = VGit g \<and> (r = Inr (Some g) \<or> (\<exists>e. r = Inl e))"
  using assms unfolding prepareDirectory_def
  by (auto elim!: runE dest: createDirectory_calls)

lemma prepareDirectory_failed:
  assumes "prepareDirectory E s n = (r, t)"
    "(CreateCommandManager (repositoryPath s) (lfs s), Inl e) \<in> set t"
  shows "(lfs s \<and> r = Inl e \<and> t \<noteq> [] \<and> last t = (CreateCommandManager (repositoryPath s) (lfs s), Inl e))
       \<or> (\<not> lfs s \<and> (r = Inr None \<or> (\<exists>e'. r = Inl e')))"
  using assms unfolding prepareDirectory_def
  by (auto elim!: runE dest: createDirectory_calls)

lemma downloadUsingRestApi_calls':
  assumes "downloadUsingRestApi E s n = (r, t)"
  shows "fst ` set t \<subseteq> {DownloadRepository (authToken s) (repositoryOwner s)
           (repositoryName s) (ref s) (commit s) (repositoryPath s)}"
  using downloadUsingRestApi_calls [OF assms] by auto

lemma initializeRepository_calls':
  assumes "initializeRepository E s g (getFetchUrl E s) n = (r, t)"
  shows "fst ` set t \<subseteq> initialize_calls E s g"
  using initializeRepository_calls [OF assms] unfolding initialize_calls_def by auto

lemma acquire_calls':
  assumes "acquire E s g url n = (r, t)"
  shows "fst ` set t \<subseteq> acquire_calls s g"
  using acquire_calls [OF assms] by auto

lemma removeAuthUnlessPersisted_cases:
  assumes "removeAuthUnlessPersisted E s g n = (r, t)"
  shows "if persistCredentials s then t = [] \<and> r = Inr ()
         else \<exists>out. t = [(RemoveAuth g, out)] \<and> (r = Inr () \<longleftrightarrow> out = Inr VUnit)"
  using assms unfolding removeAuthUnlessPersisted_def by (auto elim!: runE)

lemmas run_defs = getSource_def prepareDirectory_def createDirectory_def getGitCommandManager_def
  downloadUsingRestApi_def initializeRepository_def determineDefaultBranch_def
  fetchRepository_def checkoutRef_def checkoutSubmoduleRemoteBranch_def checkoutSubmodules_def fetchSubmodules_def
  checkCommit_def fetchAndCheckout_def acquire_def removeAuthUnlessPersisted_def
  startPointOrRef_def
  io_bind_def io_return_def io_throw_def io_when_def try_finally_def try_catch_def invoke_def
  call_void_def call_bool_def call_string_def call_strings_def call_git_def
  call_checkoutInfo_def

lemma prepareDirectory_after_failure:
  assumes "prepareDirectory E s n = (r, t)"
    "(CreateCommandManager (repositoryPath s) (lfs s), Inl e) \<in> set t"
  shows "fst ` set t \<subseteq> {FileExistsSync (repositoryPath s), RmRF (repositoryPath s),
           DirectoryExistsSync (repositoryPath s), MkdirP (repositoryPath s),
           CreateCommandManager (repositoryPath s) (lfs s),
           PrepareExistingDirectory None (repositoryPath s) (getFetchUrl E s) (clean s) (ref s)}"
    and "lfs s \<Longrightarrow> r = Inl e \<and> last t = (CreateCommandManager (repositoryPath s) (lfs s), Inl e)"
    and "\<not> lfs s \<Longrightarrow> r = Inr None \<or>
           (\<exists>e'. r = Inl e' \<and>
              (PrepareExistingDirectory None (repositoryPath s) (getFetchUrl E s) (clean s) (ref s),
               Inl e') \<in> set t)"
  using assms unfolding prepareDirectory_def
  by (auto elim!: runE dest: createDirectory_calls)

lemma native_after_construction:
  assumes "prepareDirectory E s n = (Inr (Some g), t0)"
    "(CreateCommandManager (repositoryPath s) (lfs s), Inl e) \<in> set (t0 @ t1 @ ta @ tf)"
    "fst ` set t1 \<subseteq> initialize_calls E s g" "fst ` set ta \<subseteq> acquire_calls s g"
    "fst ` set tf \<subseteq> {RemoveAuth g}"
  shows False
  using assms prepareDirectory_failed [OF assms(1), of e]
  by (auto simp: initialize_calls_def acquire_calls_def)

lemma removeAuthUnlessPersisted_calls:
  assumes "removeAuthUnlessPersisted E s g n = (r, t)"
  shows "fst ` set t \<subseteq> {RemoveAuth g}"
  using removeAuthUnlessPersisted_cases [OF assms] by (auto split: if_splits)

lemma downloadUsingRestApi_cases:
  assumes "downloadUsingRestApi E s n = (r, t)"
  shows "if submodules s then r = Inl (submodulesNotSupported E) \<and> t = []
         else if sshKey s \<noteq> [] then r = Inl (sshKeyNotSupported E) \<and> t = []
         else \<exists>out. t = [(DownloadRepository (authToken s) (repositoryOwner s)
                (repositoryName s) (ref s) (commit s) (repositoryPath s), out)]
              \<and> (r = Inr () \<longleftrightarrow> out = Inr VUnit)"
  using assms unfolding downloadUsingRestApi_def by (auto elim!: runE)

lemma determineDefaultBranch_calls':
  assumes "determineDefaultBranch E s g url n = (r, t)"
  shows "fst ` set t \<subseteq> {RemoteBranchExists g (ref s), GitGetDefaultBranch g url,
           ApiGetDefaultBranch (authToken s) (repositoryOwner s) (repositoryName s)}"
  using determineDefaultBranch_calls [OF assms] by auto

lemma fetchRepository_calls':
  assumes "fetchRepository E s g n = (r, t)"
  shows "fst ` set t \<subseteq> {Fetch g (getRefSpecForAllHistory E (ref s) (commit s)) None,
           TestRef g (ref s) (commit s), Fetch g (getRefSpec E (ref s) (commit s)) None,
           Fetch g (getRefSpec E (ref s) (commit s)) (Some (fetchDepth s))}"
  using fetchRepository_calls [OF assms] by auto

lemma checkoutRef_calls':
  assumes "checkoutRef E s g n = (r, t)"
  shows "fst ` set t \<subseteq> {c. c = GetCheckoutInfo g (ref s) (commit s) \<or> (\<exists>a. c = LfsFetch g a)
           \<or> (\<exists>a b. c = Checkout g a b)}"
  using assms unfolding checkoutRef_def by (auto elim!: runE)

lemma checkCommit_calls':
  assumes "checkCommit E s g n = (r, t)"
  shows "fst ` set t \<subseteq> {c. (\<exists>a. c = Log1 g a)
           \<or> (\<exists>b. c = CheckCommitInfo (authToken s) b (repositoryOwner s) (repositoryName s)
                  (ref s) (commit s))}"
  using assms unfolding checkCommit_def by (auto elim!: runE)

lemma fetchSubmodules_calls':
  assumes "fetchSubmodules E s g n = (r, t)"
  shows "fst ` set t \<subseteq> {ConfigureGlobalAuth g, SubmoduleSync g (nestedSubmodules s),
            SubmoduleUpdate g (fetchDepth s) (nestedSubmodules s),
            SubmoduleForeach g ''git config --local gc.auto 0'' (nestedSubmodules s),
            ConfigureSubmoduleAuth g, GetSubmodulesList g, RemoveGlobalAuth g}
         \<union> override_calls E s"
  using fetchSubmodules_calls [OF assms] by auto

lemma io_when_LfsInstall:
  assumes "io_when b (call_void E (LfsInstall g)) n = (r, t)"
  shows "fst ` set t \<subseteq> {LfsInstall g}"
  using assms by (auto elim!: runE)

subsection \<open>The shape of a run\<close>

lemma io_bind_continues:
  "io_bind m f n = (r, t) \<longleftrightarrow>
     (\<exists>r1 t1 t2. m n = (r1, t1) \<and> continues r1 f (n + length t1) (r, t2) \<and> t = t1 @ t2)"
  unfolding io_bind_def continues_def
  by (cases "m n") (auto split: sum.splits prod.splits)

lemma continues_Inr:
  "continues r1 f n (Inr y, t) \<Longrightarrow> \<exists>x. r1 = Inr x \<and> f x n = (Inr y, t)"
  unfolding continues_def by (cases r1) auto

lemma continues_calls:
  assumes "continues r1 f n (r, t)"
    and "\<And>x r t. f x n = (r, t) \<Longrightarrow> fst ` set t \<subseteq> A"
  shows "fst ` set t \<subseteq> A"
  using assms unfolding continues_def by (cases r1) auto

lemma continues_bind:
  "continues r1 (\<lambda>_. io_bind m f) n (r, t) \<longleftrightarrow>
     (\<exists>r2 t1 t2. continues r1 (\<lambda>_. m) n (r2, t1) \<and> continues r2 f (n + length t1) (r, t2)
        \<and> t = t1 @ t2)"
proof (cases r1)
  case (Inl e)
  then show ?thesis by (auto simp: continues_def)
next
  case (Inr x)
  then show ?thesis by (simp add: continues_def io_bind_continues)
qed

lemma fetchAndCheckout_shape:
  assumes "fetchAndCheckout E s g n = (r, t)"
  obtains rL tL rF tF rC tC rS tS tK where
      "io_when (lfs s) (call_void E (LfsInstall g)) n = (rL, tL)"
      "continues rL (\<lambda>_. fetchRepository E s g) (n + length tL) (rF, tF)"
      "continues rF (\<lambda>_. checkoutRef E s g) (n + length tL + length tF) (rC, tC)"
      "continues rC (\<lambda>_. fetchSubmodules E s g) (n + length tL + length tF + length tC) (rS, tS)"
      "continues rS (\<lambda>_. checkCommit E s g)
         (n + length tL + length tF + length tC + length tS) (r, tK)"
      "t = tL @ tF @ tC @ tS @ tK"
  using assms unfolding fetchAndCheckout_def io_bind_continues continues_bind
  by (elim exE conjE) simp

lemma acquire_shape:
  assumes "acquire E s g url n = (r, t)"
  obtains rA tA rD tD tR where
      "call_void E (ConfigureAuth g) n = (rA, tA)"
      "continues rA (\<lambda>_. determineDefaultBranch E s g url) (n + length tA) (rD, tD)"
      "continues rD (\<lambda>s'. fetchAndCheckout E s' g) (n + length tA + length tD) (r, tR)"
      "t = tA @ tD @ tR"
  using assms unfolding acquire_def io_bind_continues continues_bind
  by (elim exE conjE) simp

lemma continues_cases:
  assumes "continues r1 f n (r, t)"
  obtains (stopped) e where "r1 = Inl e" "r = Inl e" "t = []"
        | (ran) x where "r1 = Inr x" "f x n = (r, t)"
  using assms unfolding continues_def by (cases r1) auto

lemma call_void_ConfigureAuth:
  assumes "call_void E (ConfigureAuth g) n = (r, t)"
  shows "\<exists>out. t = [(ConfigureAuth g, out)] \<and> (r = Inr () \<longleftrightarrow> out = Inr VUnit)"
  using assms by (auto elim!: runE)

lemma getSource_configured:
  assumes "getSource E s n = (r, t)"
  obtains (early) "fst ` set t \<subseteq> early_calls E s"
      "\<And>g. (ConfigureAuth g, Inr VUnit) \<notin> set t"
    | (configured) g pre m rD tD rR tR tf where
      "t = pre @ tD @ tR @ tf"
      "determineDefaultBranch E s g (getFetchUrl E s) m = (rD, tD)"
      "continues rD (\<lambda>s'. fetchAndCheckout E s' g) (m + length tD) (rR, tR)"
      "fst ` set pre \<subseteq> directory_calls E s \<union> initialize_calls E s g \<union> {ConfigureAuth g}"
      "pre \<noteq> []" "last pre = (ConfigureAuth g, Inr VUnit)"
      "fst ` set tf \<subseteq> {RemoveAuth g}"
      "r = Inr () \<longrightarrow> rR = Inr ()"
  using assms
proof (cases rule: getSource_cases)
  case (failed_early e)
  from prepareDirectory_calls [OF failed_early(1)]
  have "fst ` set t \<subseteq> early_calls E s" "\<And>g. (ConfigureAuth g, Inr VUnit) \<notin> set t"
    by (auto simp: early_calls_def directory_calls_def)
  then show ?thesis by (rule early)
next
  case (rest_api t0 t1)
  from prepareDirectory_calls [OF rest_api(1)] downloadUsingRestApi_calls' [OF rest_api(2)]
    rest_api(3)
  have "fst ` set t \<subseteq> early_calls E s" "\<And>g. (ConfigureAuth g, Inr VUnit) \<notin> set t"
    by (auto simp: early_calls_def directory_calls_def)
  then show ?thesis by (rule early)
next
  case (init_failed g t0 t1 e)
  from prepareDirectory_calls [OF init_failed(1)] initializeRepository_calls' [OF init_failed(2)]
    init_failed(3)
  have "fst ` set t \<subseteq> early_calls E s" "\<And>g. (ConfigureAuth g, Inr VUnit) \<notin> set t"
    by (auto simp: early_calls_def directory_calls_def initialize_calls_def)
  then show ?thesis by (rule early)
next
  case (native g t0 t1 ra ta rf tf)
  note c0 = prepareDirectory_calls [OF native(1)]
  note c1 = initializeRepository_calls' [OF native(2)]
  note cf = removeAuthUnlessPersisted_calls [OF native(4)]
  from native(3) obtain rA tA rD tD tR where
    A: "call_void E (ConfigureAuth g) (n + length t0 + length t1) = (rA, tA)"
    and D: "continues rA (\<lambda>_. determineDefaultBranch E s g (getFetchUrl E s))
          (n + length t0 + length t1 + length tA) (rD, tD)"
    and R: "continues rD (\<lambda>s'. fetchAndCheckout E s' g)
          (n + length t0 + length t1 + length tA + length tD) (ra, tR)"
    and ta: "ta = tA @ tD @ tR"
    by (rule acquire_shape)
  from call_void_ConfigureAuth [OF A] obtain out
    where tA: "tA = [(ConfigureAuth g, out)]" and out: "rA = Inr () \<longleftrightarrow> out = Inr VUnit"
    by blast
  from D show ?thesis
  proof (cases rule: continues_cases)
    case (stopped e)
    with R have "tR = []" by (simp add: continues_def)
    with stopped tA out ta native(5) c0 c1 cf
    have "fst ` set t \<subseteq> early_calls E s" "\<And>g. (ConfigureAuth g, Inr VUnit) \<notin> set t"
      by (auto simp: early_calls_def directory_calls_def initialize_calls_def)
    then show ?thesis by (rule early)
  next
    case (ran x)
    have ok: "out = Inr VUnit" using ran(1) out by simp
    have "r = Inr () \<longrightarrow> ra = Inr ()" using native(6) by (cases rf) auto
    with ran(2) R c0 c1 cf tA ok ta native(5)
    show ?thesis
      by (intro configured [of "t0 @ t1 @ tA" tD tR tf g
            "n + length t0 + length t1 + length tA" rD ra]) auto
  qed
qed

lemma fetchAndCheckout_settings:
  assumes "determineDefaultBranch E s g url m = (rD, tD)"
    "continues rD (\<lambda>s'. fetchAndCheckout E s' g) k (rR, tR)" "tR \<noteq> []"
  obtains s' where "rD = Inr s'" "fetchAndCheckout E s' g k = (rR, tR)"
    "determineDefaultBranch E s g url m = (Inr s', tD)"
  using assms by (auto elim: continues_cases)

subsection \<open>Lists: what comes before and after an event\<close>

lemma prefix_before:
  assumes "xs @ ys = pre @ x # post" "x \<notin> set xs"
  shows "\<exists>pre'. pre = xs @ pre' \<and> ys = pre' @ x # post"
  using assms
proof (induction xs arbitrary: pre)
  case Nil
  then show ?case by simp
next
  case (Cons a xs)
  then show ?case by (cases pre) auto
qed

lemma suffix_after:
  assumes "xs @ ys = pre @ x # post" "x \<notin> set ys"
  shows "\<exists>post'. post = post' @ ys \<and> xs = pre @ x # post'"
  using assms
proof (induction xs arbitrary: pre)
  case Nil
  then show ?case by (cases pre) auto
next
  case (Cons a xs)
  show ?case
  proof (cases pre)
    case Nil
    with Cons.prems show ?thesis by auto
  next
    case (Cons b pre')
    with Cons.prems Cons.IH [of pre'] show ?thesis by auto
  qed
qed

lemma filter_calls_empty:
  assumes "fst ` set t \<subseteq> A" "\<And>c. c \<in> A \<Longrightarrow> \<not> P c"
  shows "filter P (map fst t) = []"
  using assms by (auto simp: filter_empty_conv)

subsection \<open>The example inputs\<close>

lemma settings_tag_fields:
  "repositoryOwner settings_tag = ''o''" "repositoryName settings_tag = ''r''"
  "repositoryPath settings_tag = ''/w''" "ref settings_tag = ''v1''"
  "commit settings_tag = []" "clean settings_tag = True" "fetchDepth settings_tag = 0"
  "lfs settings_tag = False" "submodules settings_tag = False"
  "nestedSubmodules settings_tag = False" "authToken settings_tag = ''t''"
  "sshKey settings_tag = []" "persistCredentials settings_tag = False"
  "submodulesRemoteBranch settings_tag = []"
  by (simp_all add: settings_tag_def)

lemma env_ok_fields:
  "getFetchUrl env_ok s = ''https://github.com/'' @ repositoryOwner s @ ''/'' @ repositoryName s"
  "pathJoin env_ok a b = a @ ''/'' @ b"
  "getRefSpec env_ok r c = [r, c]"
  "getRefSpecForAllHistory env_ok r c = [''*'', r, c]"
  "MinimumGitVersion env_ok = ''2.18''"
  "void_result env_ok n x = Inr ()"
  "bool_result env_ok n x = Inr (case x of RemoteBranchExists g b \<Rightarrow> b = ''main''
                                   | TestRef g r c \<Rightarrow> False | _ \<Rightarrow> True)"
  "string_result env_ok n x = Inr ''main''"
  "strings_result env_ok n x = Inr [''a'', ''b'']"
  "git_result env_ok n x = Inr (GitCommandManager n)"
  "checkoutInfo_result env_ok n x =
     Inr (case x of GetCheckoutInfo g r c \<Rightarrow> CheckoutInfo r ''origin'' | _ \<Rightarrow> CheckoutInfo [] [])"
  by (simp_all add: env_ok_def)

lemma env_nogit_fields:
  "getFetchUrl env_nogit = getFetchUrl env_ok"
  "pathJoin env_nogit = pathJoin env_ok"
  "getRefSpec env_nogit = getRefSpec env_ok"
  "getRefSpecForAllHistory env_nogit = getRefSpecForAllHistory env_ok"
  "MinimumGitVersion env_nogit = MinimumGitVersion env_ok"
  "void_result env_nogit = void_result env_ok"
  "bool_result env_nogit = bool_result env_ok"
  "string_result env_nogit = string_result env_ok"
  "strings_result env_nogit = strings_result env_ok"
  "git_result env_nogit n x = Inl (Error ''git not found'')"
  "checkoutInfo_result env_nogit = checkoutInfo_result env_ok"
  by (simp_all add: env_nogit_def)

lemma getSource_tag:
  "getSource env_ok settings_tag 0 =
    (Inr (),
     [(FileExistsSync ''/w'', Inr (VBool True)), (RmRF ''/w'', Inr VUnit),
      (DirectoryExistsSync ''/w'', Inr (VBool True)),
      (CreateCommandManager ''/w'' False, Inr (VGit (GitCommandManager 3))),
      (PrepareExistingDirectory (Some (GitCommandManager 3)) ''/w'' ''https://github.com/o/r'' True ''v1'', Inr VUnit),
      (SetRepositoryPath ''/w'', Inr VUnit),
      (DirectoryExistsSync ''/w/.git'', Inr (VBool True)),
      (TryDisableAutomaticGarbageCollection (GitCommandManager 3), Inr (VBool True)),
      (ConfigureAuth (GitCommandManager 3), Inr VUnit),
      (RemoteBranchExists (GitCommandManager 3) ''v1'', Inr (VBool False)),
      (ApiGetDefaultBranch ''t'' ''o'' ''r'', Inr (VString ''main'')),
      (Fetch (GitCommandManager 3) [''*'', ''main'', []] None, Inr VUnit),
      (TestRef (GitCommandManager 3) ''main'' [], Inr (VBool False)),
      (Fetch (GitCommandManager 3) [''main'', []] None, Inr VUnit),
      (GetCheckoutInfo (GitCommandManager 3) ''main'' [], Inr (VCheckoutInfo (CheckoutInfo ''main'' ''origin''))),
      (Checkout (GitCommandManager 3) ''main'' ''origin'', Inr VUnit),
      (Log1 (GitCommandManager 3) None, Inr (VString ''main'')),
      (Log1 (GitCommandManager 3) (Some (''--format='%H'' @ [CHR 0x27])), Inr (VString ''main'')),
      (CheckCommitInfo ''t'' ''main'' ''o'' ''r'' ''main'' [], Inr VUnit),
      (RemoveAuth (GitCommandManager 3), Inr VUnit)])"
  by (simp add: run_defs env_ok_fields settings_tag_fields)

lemma getSource_nogit:
  "getSource env_nogit settings_tag 0 =
    (Inr (),
     [(FileExistsSync ''/w'', Inr (VBool True)), (RmRF ''/w'', Inr VUnit),
      (DirectoryExistsSync ''/w'', Inr (VBool True)),
      (CreateCommandManager ''/w'' False, Inl (Error ''git not found'')),
      (PrepareExistingDirectory None ''/w'' ''https://github.com/o/r'' True ''v1'', Inr VUnit),
      (DownloadRepository ''t'' ''o'' ''r'' ''v1'' [] ''/w'', Inr VUnit)])"
  by (simp add: run_defs env_nogit_fields env_ok_fields settings_tag_fields)

lemma settings_sub_fields:
  "repositoryOwner settings_sub = ''o''" "repositoryName settings_sub = ''r''"
  "repositoryPath settings_sub = ''/w''" "ref settings_sub = ''main''"
  "commit settings_sub = []" "clean settings_sub = True" "fetchDepth settings_sub = 1"
  "lfs settings_sub = False" "submodules settings_sub = True"
  "nestedSubmodules settings_sub = False" "authToken settings_sub = ''t''"
  "sshKey settings_sub = []" "persistCredentials settings_sub = False"
  "submodulesRemoteBranch settings_sub = ''dev''"
  by (simp_all add: settings_sub_def settings_tag_def)

lemma env_sub_fields:
  "getFetchUrl env_sub = getFetchUrl env_ok"
  "pathJoin env_sub = pathJoin env_ok"
  "getRefSpec env_sub = getRefSpec env_ok"
  "getRefSpecForAllHistory env_sub = getRefSpecForAllHistory env_ok"
  "MinimumGitVersion env_sub = MinimumGitVersion env_ok"
  "void_result env_sub = void_result env_ok"
  "bool_result env_sub n x = Inr (case x of
       RemoteBranchExists g b \<Rightarrow> b = ''main'' \<or> g = GitCommandManager 19
     | TestRef g r c \<Rightarrow> False | _ \<Rightarrow> True)"
  "string_result env_sub = string_result env_ok"
  "strings_result env_sub = strings_result env_ok"
  "git_result env_sub = git_result env_ok"
  "checkoutInfo_result env_sub = checkoutInfo_result env_ok"
  by (simp_all add: env_sub_def)

lemma checkoutSubmodulesRemoteBranch_sub:
  "checkoutSubmodulesRemoteBranch env_sub settings_sub [''a'', ''b''] 19 =
    (Inr (),
     [(CreateCommandManager ''/w/a'' False, Inr (VGit (GitCommandManager 19))),
      (RemoteBranchExists (GitCommandManager 19) ''dev'', Inr (VBool True)),
      (Fetch (GitCommandManager 19) [''dev'', []] (Some 1), Inr VUnit),
      (GetCheckoutInfo (GitCommandManager 19) ''dev'' [],
         Inr (VCheckoutInfo (CheckoutInfo ''dev'' ''origin''))),
      (Checkout (GitCommandManager 19) ''dev'' ''origin'', Inr VUnit),
      (CreateCommandManager ''/w/b'' False, Inr (VGit (GitCommandManager 24))),
      (RemoteBranchExists (GitCommandManager 24) ''dev'', Inr (VBool False))])"
  by (simp add: run_defs env_sub_fields env_ok_fields settings_sub_fields)

lemma getSource_sub:
  "getSource env_sub settings_sub 0 =
    (Inr (),
     [(FileExistsSync ''/w'', Inr (VBool True)), (RmRF ''/w'', Inr VUnit),
      (DirectoryExistsSync ''/w'', Inr (VBool True)),
      (CreateCommandManager ''/w'' False, Inr (VGit (GitCommandManager 3))),
      (PrepareExistingDirectory (Some (GitCommandManager 3)) ''/w'' ''https://github.com/o/r'' True ''main'', Inr VUnit),
      (SetRepositoryPath ''/w'', Inr VUnit),
      (DirectoryExistsSync ''/w/.git'', Inr (VBool True)),
      (TryDisableAutomaticGarbageCollection (GitCommandManager 3), Inr (VBool True)),
      (ConfigureAuth (GitCommandManager 3), Inr VUnit),
      (RemoteBranchExists (GitCommandManager 3) ''main'', Inr (VBool True)),
      (Fetch (GitCommandManager 3) [''main'', []] (Some 1), Inr VUnit),
      (GetCheckoutInfo (GitCommandManager 3) ''main'' [],
         Inr (VCheckoutInfo (CheckoutInfo ''main'' ''origin''))),
      (Checkout (GitCommandManager 3) ''main'' ''origin'', Inr VUnit),
      (ConfigureGlobalAuth (GitCommandManager 3), Inr VUnit),
      (SubmoduleSync (GitCommandManager 3) False, Inr VUnit),
      (SubmoduleUpdate (GitCommandManager 3) 1 False, Inr VUnit),
      (SubmoduleForeach (GitCommandManager 3) ''git config --local gc.auto 0'' False,
         Inr (VString ''main'')),
      (ConfigureSubmoduleAuth (GitCommandManager 3), Inr VUnit),
      (GetSubmodulesList (GitCommandManager 3), Inr (VStrings [''a'', ''b''])),
      (CreateCommandManager ''/w/a'' False, Inr (VGit (GitCommandManager 19))),
      (RemoteBranchExists (GitCommandManager 19) ''dev'', Inr (VBool True)),
      (Fetch (GitCommandManager 19) [''dev'', []] (Some 1), Inr VUnit),
      (GetCheckoutInfo (GitCommandManager 19) ''dev'' [],
         Inr (VCheckoutInfo (CheckoutInfo ''dev'' ''origin''))),
      (Checkout (GitCommandManager 19) ''dev'' ''origin'', Inr VUnit),
      (CreateCommandManager ''/w/b'' False, Inr (VGit (GitCommandManager 24))),
      (RemoteBranchExists (GitCommandManager 24) ''dev'', Inr (VBool False)),
      (RemoveGlobalAuth (GitCommandManager 3), Inr VUnit),
      (Log1 (GitCommandManager 3) None, Inr (VString ''main'')),
      (Log1 (GitCommandManager 3) (Some (''--format='%H'' @ [CHR 0x27])), Inr (VString ''main'')),
      (CheckCommitInfo ''t'' ''main'' ''o'' ''r'' ''main'' [], Inr VUnit),
      (RemoveAuth (GitCommandManager 3), Inr VUnit)])"
  by (simp add: run_defs env_sub_fields env_ok_fields settings_sub_fields)

subsection \<open>The submodules phase inside a run\<close>

lemma continues_events:
  assumes "continues r1 f n (r, t)" "ev \<in> set t"
    and "\<And>x r t ev. f x n = (r, t) \<Longrightarrow> ev \<in> set t \<Longrightarrow> Q ev"
  shows "Q ev"
  using assms unfolding continues_def by (cases r1) auto

lemma checkoutRef_failed:
  assumes "checkoutRef E s g n = (Inl e, t)"
  shows "(Checkout g' x y, Inr VUnit) \<notin> set t"
  using assms unfolding checkoutRef_def by (auto elim!: runE)

lemma fetchSubmodules_cases:
  assumes "fetchSubmodules E s g n = (r, t)"
  obtains (disabled) "\<not> submodules s" "t = []" "r = Inr ()"
    | (enabled) rB tB out where "submodules s" "checkoutSubmodules E s g n = (rB, tB)"
        "t = tB @ [(RemoveGlobalAuth g, out)]"
        "r = (case out of Inl e \<Rightarrow> Inl e | Inr v \<Rightarrow> rB)"
  using assms unfolding fetchSubmodules_def
  by (elim io_whenE try_finallyE call_voidE) auto

lemma getSource_submodule_phase:
  assumes "getSource E s n = (r, t)"
  obtains (no_phase) "\<And>ev. ev \<in> set t \<Longrightarrow> \<not> is_submodule_call (fst ev)"
      "\<And>g x y. submodules s \<Longrightarrow> (Checkout g x y, Inr VUnit) \<notin> set t"
    | (phase) g s' pre m rB tB out post where
      "t = pre @ tB @ (RemoveGlobalAuth g, out) # post"
      "checkoutSubmodules E s' g m = (rB, tB)"
      "submodules s" "s' = s\<lparr>ref := ref s'\<rparr>"
      "persistCredentials s' = persistCredentials s"
      "submodulesRemoteBranch s' = submodulesRemoteBranch s"
      "nestedSubmodules s' = nestedSubmodules s" "fetchDepth s' = fetchDepth s"
      "\<And>ev. ev \<in> set pre \<union> set post \<Longrightarrow> \<not> is_submodule_call (fst ev)"
      "fst ` set post \<subseteq> {c. (\<exists>a. c = Log1 g a)
           \<or> (\<exists>a b d e f h. c = CheckCommitInfo a b d e f h) \<or> c = RemoveAuth g}"
  using assms
proof (cases rule: getSource_configured)
  case early
  then have "\<And>ev. ev \<in> set t \<Longrightarrow> \<not> is_submodule_call (fst ev)"
    "\<And>g x y. (Checkout g x y, Inr VUnit) \<notin> set t"
    by (auto simp: early_calls_def directory_calls_def initialize_calls_def)
  then show ?thesis by (intro no_phase)
next
  case (configured g pre m rD tD rR tR tf)
  let ?Q = "\<lambda>ev::event. \<not> is_submodule_call (fst ev) \<and> (\<forall>g x y. fst ev \<noteq> Checkout g x y)"
  have pre: "\<forall>ev \<in> set pre \<union> set tD \<union> set tf. ?Q ev"
    using configured(4,7) determineDefaultBranch_calls' [OF configured(2)]
    by (auto simp: directory_calls_def initialize_calls_def)
  show ?thesis
  proof (cases "tR = []")
    case True
    with pre configured(1) have "\<forall>ev \<in> set t. ?Q ev" by auto
    then have "\<And>ev. ev \<in> set t \<Longrightarrow> \<not> is_submodule_call (fst ev)"
      "\<And>g x y. (Checkout g x y, Inr VUnit) \<notin> set t"
      by force+
    then show ?thesis by (intro no_phase)
  next
    case False
    with configured(2,3) obtain s' where s': "rD = Inr s'"
      "fetchAndCheckout E s' g (m + length tD) = (rR, tR)"
      "determineDefaultBranch E s g (getFetchUrl E s) m = (Inr s', tD)"
      by (rule fetchAndCheckout_settings)
    note fields = determineDefaultBranch_fields [OF s'(3)] determineDefaultBranch_result [OF s'(3)]
    from s'(2) obtain rL tL rF tF rC tC rS tS tK where
      L: "io_when (lfs s') (call_void E (LfsInstall g)) (m + length tD) = (rL, tL)"
      and F: "continues rL (\<lambda>_. fetchRepository E s' g) (m + length tD + length tL) (rF, tF)"
      and C: "continues rF (\<lambda>_. checkoutRef E s' g) (m + length tD + length tL + length tF) (rC, tC)"
      and S: "continues rC (\<lambda>_. fetchSubmodules E s' g)
           (m + length tD + length tL + length tF + length tC) (rS, tS)"
      and K: "continues rS (\<lambda>_. checkCommit E s' g)
           (m + length tD + length tL + length tF + length tC + length tS) (rR, tK)"
      and tR: "tR = tL @ tF @ tC @ tS @ tK"
      by (rule fetchAndCheckout_shape)
    have cL: "\<forall>ev \<in> set tL. ?Q ev"
      using io_when_LfsInstall [OF L] by auto
    have cF: "\<forall>ev \<in> set tF. ?Q ev"
    proof
      fix ev assume "ev \<in> set tF"
      then show "?Q ev"
        by (rule continues_events [OF F]) (auto dest!: fetchRepository_calls')
    qed
    have cC: "\<forall>ev \<in> set tC. \<not> is_submodule_call (fst ev)"
    proof
      fix ev assume "ev \<in> set tC"
      then show "\<not> is_submodule_call (fst ev)"
        by (rule continues_events [OF C]) (auto dest!: checkoutRef_calls')
    qed
    have cK: "\<forall>ev \<in> set tK. ?Q ev"
    proof
      fix ev assume "ev \<in> set tK"
      then show "?Q ev"
        by (rule continues_events [OF K]) (auto dest!: checkCommit_calls')
    qed
    from S show ?thesis
    proof (cases rule: continues_cases)
      case (stopped e)
      then have tK: "tK = []" using K by (simp add: continues_def)
      have cC': "\<forall>ev \<in> set tC. \<forall>g x y. ev \<noteq> (Checkout g x y, Inr VUnit)"
        using C stopped(1) by (auto elim!: continues_cases dest: checkoutRef_failed)
      let ?W = "\<lambda>ev::event. \<not> is_submodule_call (fst ev)
              \<and> (\<forall>g x y. ev \<noteq> (Checkout g x y, Inr VUnit))"
      have QW: "?W ev" if "?Q ev" for ev
        using that by (cases ev) auto
      have 1: "\<forall>ev \<in> set pre \<union> set tD \<union> set tf. ?W ev"
        using pre QW by blast
      have 2: "\<forall>ev \<in> set tL. ?W ev" using cL QW by blast
      have 3: "\<forall>ev \<in> set tF. ?W ev" using cF QW by blast
      have 4: "\<forall>ev \<in> set tC. ?W ev" using cC cC' by blast
      have "set t = set pre \<union> set tD \<union> set tf \<union> set tL \<union> set tF \<union> set tC"
        using stopped(3) tK tR configured(1) by auto
      with 1 2 3 4 have "\<forall>ev \<in> set t. ?W ev"
        by (simp only: ball_Un)
      then have "\<And>ev. ev \<in> set t \<Longrightarrow> \<not> is_submodule_call (fst ev)"
        "\<And>g x y. (Checkout g x y, Inr VUnit) \<notin> set t"
        by blast+
      then show ?thesis by (intro no_phase)
    next
      case (ran u)
      from ran(2) show ?thesis
      proof (cases rule: fetchSubmodules_cases)
        case disabled
        have "\<forall>ev \<in> set t. \<not> is_submodule_call (fst ev)"
          using pre cL cF cC cK tR configured(1) disabled(2) by auto
        moreover have "\<not> submodules s" using disabled(1) fields(5) by simp
        ultimately have "\<And>ev. ev \<in> set t \<Longrightarrow> \<not> is_submodule_call (fst ev)"
          "\<And>g x y. submodules s \<Longrightarrow> (Checkout g x y, Inr VUnit) \<notin> set t"
          by blast+
        then show ?thesis by (intro no_phase)
      next
        case (enabled rB tB out)
        have "t = (pre @ tD @ tL @ tF @ tC) @ tB @ (RemoveGlobalAuth g, out) # (tK @ tf)"
          using configured(1) tR enabled(3) by simp
        moreover have "\<not> is_submodule_call (fst ev)"
          if "ev \<in> set (pre @ tD @ tL @ tF @ tC) \<union> set (tK @ tf)" for ev
          using that pre cL cF cC cK by auto
        moreover have "submodules s" using enabled(1) fields(5) by simp
        moreover have "fst ` set (tK @ tf) \<subseteq> {c. (\<exists>a. c = Log1 g a)
           \<or> (\<exists>a b d e f h. c = CheckCommitInfo a b d e f h) \<or> c = RemoveAuth g}"
        proof -
          have "fst ` set tK \<subseteq> {c. (\<exists>a. c = Log1 g a)
              \<or> (\<exists>a b d e f h. c = CheckCommitInfo a b d e f h) \<or> c = RemoveAuth g}"
            by (rule continues_calls [OF K]) (auto dest!: checkCommit_calls')
          with configured(7) show ?thesis by auto
        qed
        ultimately show ?thesis
          using enabled(2) fields(13) fields(6) fields(7) fields(8) fields(4)
          by (intro phase)
      qed
    qed
  qed
qed

lemma checkoutSubmodules_scope:
  assumes "checkoutSubmodules E s g n = (r, t)"
  shows "\<exists>out mid. t = (ConfigureGlobalAuth g, out) # mid \<and> (out \<noteq> Inr VUnit \<longrightarrow> mid = [])
           \<and> fst ` set mid \<subseteq> {SubmoduleSync g (nestedSubmodules s),
                SubmoduleUpdate g (fetchDepth s) (nestedSubmodules s),
                SubmoduleForeach g ''git config --local gc.auto 0'' (nestedSubmodules s),
                ConfigureSubmoduleAuth g, GetSubmodulesList g} \<union> override_calls E s"
  using assms unfolding checkoutSubmodules_def
proof (elim io_bindE [where m = "call_void E (ConfigureGlobalAuth g)"], goal_cases)
  case (1 e)
  then show ?case by (auto elim!: runE)
next
  case (2 x t1 t2)
  from 2(1) have t1: "t1 = [(ConfigureGlobalAuth g, Inr VUnit)]" by (auto elim!: runE)
  from 2(2) have "fst ` set t2 \<subseteq> {SubmoduleSync g (nestedSubmodules s),
                SubmoduleUpdate g (fetchDepth s) (nestedSubmodules s),
                SubmoduleForeach g ''git config --local gc.auto 0'' (nestedSubmodules s),
                ConfigureSubmoduleAuth g, GetSubmodulesList g} \<union> override_calls E s"
    by (auto elim!: runE dest: checkoutSubmodulesRemoteBranch_calls)
  with t1 2(3) show ?case by simp
qed

lemma disj_elim_left: "(P \<and> Q) \<or> R \<Longrightarrow> \<not> P \<Longrightarrow> R"
  by blast




subsection \<open>The outcomes of the default branch and fetch blocks\<close>

lemma determineDefaultBranch_cases:
  assumes "determineDefaultBranch E s g url n = (r, t)"
  obtains (kept_commit) "ref s = []" "commit s \<noteq> []" "t = []" "r = Inr s"
    | (kept_branch) "ref s \<noteq> []" "t = [(RemoteBranchExists g (ref s), Inr (VBool True))]"
        "r = Inr s"
    | (exists_failed) e where "ref s \<noteq> []" "t = [(RemoteBranchExists g (ref s), Inl e)]"
        "r = Inl e"
    | (lookup_failed) tq c e where "t = tq @ [(c, Inl e)]" "r = Inl e"
        "ref s = [] \<and> commit s = [] \<and> tq = []
         \<or> ref s \<noteq> [] \<and> tq = [(RemoteBranchExists g (ref s), Inr (VBool False))]"
        "c = (if sshKey s \<noteq> [] then GitGetDefaultBranch g url
              else ApiGetDefaultBranch (authToken s) (repositoryOwner s) (repositoryName s))"
    | (looked_up) tq c b where "t = tq @ [(c, Inr (VString b))]" "r = Inr (s\<lparr>ref := b\<rparr>)"
        "ref s = [] \<and> commit s = [] \<and> tq = []
         \<or> ref s \<noteq> [] \<and> tq = [(RemoteBranchExists g (ref s), Inr (VBool False))]"
        "c = (if sshKey s \<noteq> [] then GitGetDefaultBranch g url
              else ApiGetDefaultBranch (authToken s) (repositoryOwner s) (repositoryName s))"
  using assms unfolding determineDefaultBranch_def
  by (auto elim!: runE split: if_splits)

lemma fetchRepository_cases:
  assumes "fetchRepository E s g n = (r, t)"
  obtains (full_failed) e where "fetchDepth s \<le> 0" "r = Inl e"
        "t = [(Fetch g (getRefSpecForAllHistory E (ref s) (commit s)) None, Inl e)]"
    | (full_unchecked) e where "fetchDepth s \<le> 0" "r = Inl e"
        "t = [(Fetch g (getRefSpecForAllHistory E (ref s) (commit s)) None, Inr VUnit),
              (TestRef g (ref s) (commit s), Inl e)]"
    | (full_matches) "fetchDepth s \<le> 0" "r = Inr ()"
        "t = [(Fetch g (getRefSpecForAllHistory E (ref s) (commit s)) None, Inr VUnit),
              (TestRef g (ref s) (commit s), Inr (VBool True))]"
    | (full_corrected) out where "fetchDepth s \<le> 0"
        "r = Inr () \<and> out = Inr VUnit \<or> (\<exists>e. r = Inl e \<and> out = Inl e)"
        "t = [(Fetch g (getRefSpecForAllHistory E (ref s) (commit s)) None, Inr VUnit),
              (TestRef g (ref s) (commit s), Inr (VBool False)),
              (Fetch g (getRefSpec E (ref s) (commit s)) None, out)]"
    | (shallow) out where "0 < fetchDepth s"
        "r = Inr () \<and> out = Inr VUnit \<or> (\<exists>e. r = Inl e \<and> out = Inl e)"
        "t = [(Fetch g (getRefSpec E (ref s) (commit s)) (Some (fetchDepth s)), out)]"
  using assms unfolding fetchRepository_def
  by (auto elim!: runE split: if_splits)

lemma fetchSubmodules_fetches:
  assumes "fetchSubmodules E s g n = (r, t)" "ev \<in> set t" "is_fetch (fst ev)"
  shows "submodules s \<and> submodulesRemoteBranch s \<noteq> [] \<and> 0 < fetchDepth s
       \<and> (\<exists>sg. fst ev = Fetch sg (getRefSpec E (submodulesRemoteBranch s) []) (Some (fetchDepth s)))"
  using assms unfolding fetchSubmodules_def checkoutSubmodules_def
  by (auto elim!: runE dest!: checkoutSubmodulesRemoteBranch_calls simp: override_calls_def)

lemma lfsInstall_cases:
  assumes "io_when b (call_void E (LfsInstall g)) n = (r, t)"
  obtains (installed) "r = Inr ()" "t = [] \<or> t = [(LfsInstall g, Inr VUnit)]"
    | (install_failed) e where "b" "r = Inl e" "t = [(LfsInstall g, Inl e)]"
  using assms by (auto elim!: runE)

lemma fetchSubmodules_later:
  assumes "fetchSubmodules E s g n = (r, t)" "ev \<in> set t"
  shows "later_event E s ev"
proof -
  have "\<not> is_lookup (fst ev)"
    using fetchSubmodules_calls [OF assms] by (auto simp: override_calls_def)
  with fetchSubmodules_fetches [OF assms] show ?thesis
    unfolding later_event_def by blast
qed

lemma getSource_phases:
  assumes "getSource E s n = (r, t)"
  obtains (early) "fst ` set t \<subseteq> early_calls E s"
      "\<And>g. (ConfigureAuth g, Inr VUnit) \<notin> set t"
    | (unresolved) g pre m e tD tf where
      "t = pre @ tD @ tf"
      "determineDefaultBranch E s g (getFetchUrl E s) m = (Inl e, tD)"
      "fst ` set pre \<subseteq> directory_calls E s \<union> initialize_calls E s g \<union> {ConfigureAuth g}"
      "pre \<noteq> []" "last pre = (ConfigureAuth g, Inr VUnit)"
      "fst ` set tf \<subseteq> {RemoveAuth g}" "r \<noteq> Inr ()"
    | (lfs_failed) g pre m s' tD e tf where
      "t = pre @ tD @ (LfsInstall g, Inl e) # tf"
      "determineDefaultBranch E s g (getFetchUrl E s) m = (Inr s', tD)"
      "fst ` set pre \<subseteq> directory_calls E s \<union> initialize_calls E s g \<union> {ConfigureAuth g}"
      "pre \<noteq> []" "last pre = (ConfigureAuth g, Inr VUnit)"
      "fst ` set tf \<subseteq> {RemoveAuth g}" "r \<noteq> Inr ()"
    | (fetched) g pre m s' tD tL k rF tF post where
      "t = pre @ tD @ tL @ tF @ post"
      "determineDefaultBranch E s g (getFetchUrl E s) m = (Inr s', tD)"
      "fetchRepository E s' g k = (rF, tF)"
      "tL = [] \<or> tL = [(LfsInstall g, Inr VUnit)]"
      "fst ` set pre \<subseteq> directory_calls E s \<union> initialize_calls E s g \<union> {ConfigureAuth g}"
      "pre \<noteq> []" "last pre = (ConfigureAuth g, Inr VUnit)"
      "\<forall>ev \<in> set post. later_event E s ev"
      "r = Inr () \<longrightarrow> rF = Inr ()"
  using assms
proof (cases rule: getSource_configured)
  case early
  then show ?thesis by (intro that(1))
next
  case (configured g pre m rD tD rR tR tf)
  show ?thesis
  proof (cases rD)
    case (Inl e)
    with configured(3) have "tR = []" "rR = Inl e" by (simp_all add: continues_def)
    with configured Inl show ?thesis by (intro unresolved [of pre tD tf g m e]) auto
  next
    case (Inr s')
    with configured(2,3) have D: "determineDefaultBranch E s g (getFetchUrl E s) m = (Inr s', tD)"
      and R: "fetchAndCheckout E s' g (m + length tD) = (rR, tR)"
      by (simp_all add: continues_def)
    note fields = determineDefaultBranch_fields [OF D]
    from R obtain rL tL rF tF rC tC rS tS tK where
      L: "io_when (lfs s') (call_void E (LfsInstall g)) (m + length tD) = (rL, tL)"
      and F: "continues rL (\<lambda>_. fetchRepository E s' g) (m + length tD + length tL) (rF, tF)"
      and C: "continues rF (\<lambda>_. checkoutRef E s' g) (m + length tD + length tL + length tF) (rC, tC)"
      and S: "continues rC (\<lambda>_. fetchSubmodules E s' g)
           (m + length tD + length tL + length tF + length tC) (rS, tS)"
      and K: "continues rS (\<lambda>_. checkCommit E s' g)
           (m + length tD + length tL + length tF + length tC + length tS) (rR, tK)"
      and tR: "tR = tL @ tF @ tC @ tS @ tK"
      by (rule fetchAndCheckout_shape)
    from L show ?thesis
    proof (cases rule: lfsInstall_cases)
      case (install_failed e)
      with F have "rF = Inl e" "tF = []" by (simp_all add: continues_def)
      with C have "rC = Inl e" "tC = []" by (simp_all add: continues_def)
      with S have "rS = Inl e" "tS = []" by (simp_all add: continues_def)
      with K have "rR = Inl e" "tK = []" by (simp_all add: continues_def)
      with configured D tR install_failed \<open>tF = []\<close> \<open>tC = []\<close> \<open>tS = []\<close>
      show ?thesis by (intro lfs_failed [of pre tD g e tf m s']) auto
    next
      case installed
      with F have F': "fetchRepository E s' g (m + length tD + length tL) = (rF, tF)"
        by (simp add: continues_def)
      have cC: "\<forall>ev \<in> set tC. later_event E s ev"
      proof
        fix ev assume "ev \<in> set tC"
        then show "later_event E s ev"
          by (rule continues_events [OF C])
            (auto dest!: checkoutRef_calls' simp: later_event_def)
      qed
      have cS: "\<forall>ev \<in> set tS. later_event E s ev"
      proof
        fix ev assume "ev \<in> set tS"
        then have "later_event E s' ev"
          by (rule continues_events [OF S]) (rule fetchSubmodules_later)
        then show "later_event E s ev"
          unfolding later_event_def using fields(4,5,7) by simp
      qed
      have cK: "\<forall>ev \<in> set tK. later_event E s ev"
      proof
        fix ev assume "ev \<in> set tK"
        then show "later_event E s ev"
          by (rule continues_events [OF K])
            (auto dest!: checkCommit_calls' simp: later_event_def)
      qed
      have cf: "\<forall>ev \<in> set tf. later_event E s ev"
        using configured(7) by (auto simp: later_event_def)
      have post: "\<forall>ev \<in> set (tC @ tS @ tK @ tf). later_event E s ev"
        using cC cS cK cf by (simp add: ball_Un)
      have ok: "r = Inr () \<longrightarrow> rF = Inr ()"
      proof
        assume "r = Inr ()"
        with configured(8) have "rR = Inr ()" by simp
        with K have "\<exists>x. rS = Inr x" by (auto dest: continues_Inr)
        with S have "\<exists>x. rC = Inr x" by (auto dest: continues_Inr)
        with C have "\<exists>x. rF = Inr x" by (auto dest: continues_Inr)
        then show "rF = Inr ()" by simp
      qed
      have "t = pre @ tD @ tL @ tF @ (tC @ tS @ tK @ tf)"
        using configured(1) tR by simp
      then show ?thesis
        using D F' installed(2) configured(4,5,6) post ok
        by (rule fetched)
    qed
  qed
qed

subsection \<open>Fetches and lookups of a trace\<close>

lemma fetches_simps [simp]:
  "fetches [] = []" "fetches (t @ t') = fetches t @ fetches t'"
  "fetches ((c, out) # t) = (if is_fetch c then c # fetches t else fetches t)"
  by (simp_all add: fetches_def)

lemma lookups_simps [simp]:
  "lookups [] = []" "lookups (t @ t') = lookups t @ lookups t'"
  "lookups ((c, out) # t) = (if is_lookup c then c # lookups t else lookups t)"
  by (simp_all add: lookups_def)

lemma fetches_empty: "fetches t = [] \<longleftrightarrow> (\<forall>ev \<in> set t. \<not> is_fetch (fst ev))"
  by (auto simp: fetches_def filter_empty_conv)

lemma lookups_empty: "lookups t = [] \<longleftrightarrow> (\<forall>ev \<in> set t. \<not> is_lookup (fst ev))"
  by (auto simp: lookups_def filter_empty_conv)

lemma fetchRepository_first:
  assumes "fetchRepository E s g n = (r, t)"
  shows "fetches t \<noteq> [] \<and> hd (fetches t) = first_fetch E s g (ref s)"
  using assms by (cases rule: fetchRepository_cases) (auto simp: first_fetch_def)

lemma getSource_resolving:
  assumes "getSource E s n = (r, t)"
  obtains (early) "lookups t = []" "fetches t = []"
      "\<And>g. (ConfigureAuth g, Inr VUnit) \<notin> set t"
      "\<And>g b out. (RemoteBranchExists g b, out) \<notin> set t"
    | (resolving) g pre m rD tD post where
      "t = pre @ tD @ post"
      "determineDefaultBranch E s g (getFetchUrl E s) m = (rD, tD)"
      "pre \<noteq> []" "last pre = (ConfigureAuth g, Inr VUnit)"
      "lookups pre = []" "fetches pre = []"
      "\<And>g b out. (RemoteBranchExists g b, out) \<notin> set pre"
      "lookups post = []"
      "\<And>e. rD = Inl e \<Longrightarrow> fetches post = []"
      "\<And>s'. rD = Inr s' \<Longrightarrow> fetches post = [] \<or> hd (fetches post) = first_fetch E s g (ref s')"
      "r = Inr () \<Longrightarrow> fetches post \<noteq> [] \<and> (\<exists>s'. rD = Inr s')"
  using assms
proof (cases rule: getSource_phases)
  case early
  then have "lookups t = []" "fetches t = []"
    "\<And>g. (ConfigureAuth g, Inr VUnit) \<notin> set t"
    "\<And>g b out. (RemoteBranchExists g b, out) \<notin> set t"
    unfolding lookups_empty fetches_empty
    by (auto simp: early_calls_def directory_calls_def initialize_calls_def)
  then show ?thesis by (rule that(1))
next
  case (unresolved g pre m e tD tf)
  have pre: "lookups pre = []" "fetches pre = []"
    "\<And>g b out. (RemoteBranchExists g b, out) \<notin> set pre"
    using unresolved(3) unfolding lookups_empty fetches_empty
    by (auto simp: directory_calls_def initialize_calls_def)
  have tf: "lookups tf = []" "fetches tf = []"
    using unresolved(6) unfolding lookups_empty fetches_empty by auto
  show ?thesis
    using unresolved(1,2,4,5) pre tf(1)
  proof (rule resolving)
    show "fetches tf = []" by (rule tf(2))
    show "fetches tf = [] \<or> hd (fetches tf) = first_fetch E s g (ref s')" for s'
      using tf(2) by simp
    show "fetches tf \<noteq> [] \<and> (\<exists>s'. Inl e = Inr s')" if "r = Inr ()"
      using that unresolved(7) by simp
  qed
next
  case (lfs_failed g pre m s' tD e tf)
  have pre: "lookups pre = []" "fetches pre = []"
    "\<And>g b out. (RemoteBranchExists g b, out) \<notin> set pre"
    using lfs_failed(3) unfolding lookups_empty fetches_empty
    by (auto simp: directory_calls_def initialize_calls_def)
  have tf: "lookups ((LfsInstall g, Inl e) # tf) = []" "fetches ((LfsInstall g, Inl e) # tf) = []"
    using lfs_failed(6) unfolding lookups_empty fetches_empty by auto
  show ?thesis
    using lfs_failed(1,2,4,5) pre tf(1)
  proof (rule resolving)
    show "fetches ((LfsInstall g, Inl e) # tf) = []" by (rule tf(2))
    show "fetches ((LfsInstall g, Inl e) # tf) = []
        \<or> hd (fetches ((LfsInstall g, Inl e) # tf)) = first_fetch E s g (ref s'')" for s''
      using tf(2) by simp
    show "fetches ((LfsInstall g, Inl e) # tf) \<noteq> [] \<and> (\<exists>s''. Inr s' = Inr s'')" if "r = Inr ()"
      using that lfs_failed(7) by simp
  qed
next
  case (fetched g pre m s' tD tL k rF tF post)
  have pre: "lookups pre = []" "fetches pre = []"
    "\<And>g b out. (RemoteBranchExists g b, out) \<notin> set pre"
    using fetched(5) unfolding lookups_empty fetches_empty
    by (auto simp: directory_calls_def initialize_calls_def)
  note fields = determineDefaultBranch_fields [OF fetched(2)]
  have tL: "lookups tL = []" "fetches tL = []"
    using fetched(4) by auto
  have tF: "lookups tF = []"
    using fetchRepository_calls' [OF fetched(3)] unfolding lookups_empty by auto
  have post: "lookups post = []"
    using fetched(8) unfolding lookups_empty later_event_def by blast
  have first: "fetches tF \<noteq> []" "hd (fetches tF) = first_fetch E s g (ref s')"
    using fetchRepository_first [OF fetched(3)] fields(3,4) by (simp_all add: first_fetch_def)
  have t: "t = pre @ tD @ (tL @ tF @ post)" using fetched(1) by simp
  have l: "lookups (tL @ tF @ post) = []" using tL tF post by simp
  have f: "fetches (tL @ tF @ post) \<noteq> []"
    "hd (fetches (tL @ tF @ post)) = first_fetch E s g (ref s')"
    using tL first by simp_all
  show ?thesis
    using t fetched(2,6,7) pre l
  proof (rule resolving)
    show "fetches (tL @ tF @ post) = []" if "Inr s' = Inl e" for e :: error
      using that by simp
    show "fetches (tL @ tF @ post) = []
        \<or> hd (fetches (tL @ tF @ post)) = first_fetch E s g (ref s'')" if "Inr s' = Inr s''" for s''
      using that f(2) by simp
    show "fetches (tL @ tF @ post) \<noteq> [] \<and> (\<exists>s''. Inr s' = Inr s'')" if "r = Inr ()"
      using f(1) by simp
  qed
qed

section \<open>Credentials are removed on the way out (C1)\<close>

text \<open>
  Claim C1. In a run of \<^verbatim>\<open>getSource\<close> with \<open>persistCredentials = false\<close>, as soon as
  \<^verbatim>\<open>configureAuth\<close> has been called on the command manager \<open>g\<close> (whatever happens next:
  normal completion or an error thrown by any later step, or by \<^verbatim>\<open>configureAuth\<close> itself), and
  also whenever the run returns normally after the command manager \<open>g\<close> was constructed, the
  last collaborator call of the run is \<^verbatim>\<open>removeAuth\<close> on \<open>g\<close>. With
  \<open>persistCredentials = true\<close> no run ever calls \<^verbatim>\<open>removeAuth\<close>.
\<close>

theorem removeAuth_on_every_exit:
  assumes "getSource E s n = (r, t)"
  shows "(\<not> persistCredentials s \<and>
            (ConfigureAuth g \<in> fst ` set t
             \<or> (r = Inr () \<and>
                 (CreateCommandManager (repositoryPath s) (lfs s), Inr (VGit g)) \<in> set t))
          \<longrightarrow> t \<noteq> [] \<and> fst (last t) = RemoveAuth g)
       \<and> (persistCredentials s \<longrightarrow> (\<forall>g'. RemoveAuth g' \<notin> fst ` set t))"
  using assms
proof (cases rule: getSource_cases)
  case (failed_early e)
  from prepareDirectory_calls [OF failed_early(1)] failed_early(2)
  show ?thesis by (auto simp: directory_calls_def)
next
  case (rest_api t0 t1)
  from prepareDirectory_calls [OF rest_api(1)] downloadUsingRestApi_calls' [OF rest_api(2)]
    prepareDirectory_constructed [OF rest_api(1)] rest_api(3)
  show ?thesis by (auto simp: directory_calls_def)
next
  case (init_failed g0 t0 t1 e)
  from prepareDirectory_calls [OF init_failed(1)] initializeRepository_calls' [OF init_failed(2)]
    init_failed(3,4)
  show ?thesis by (auto simp: directory_calls_def initialize_calls_def)
next
  case (native g0 t0 t1 ra ta rf tf)
  note calls = prepareDirectory_calls [OF native(1)] initializeRepository_calls' [OF native(2)]
    acquire_calls' [OF native(3)]
  note fin = removeAuthUnlessPersisted_cases [OF native(4)]
  have same: "g = g0"
    if "ConfigureAuth g \<in> fst ` set t
        \<or> (CreateCommandManager (repositoryPath s) (lfs s), Inr (VGit g)) \<in> set t"
      "\<not> persistCredentials s"
  proof -
    have "g = g0" if "(CreateCommandManager (repositoryPath s) (lfs s), Inr (VGit g)) \<in> set t0"
      using prepareDirectory_constructed [OF native(1) that] by simp
    with that calls fin native(5) show ?thesis
      by (auto simp: directory_calls_def initialize_calls_def acquire_calls_def)
  qed
  have no_remove: "RemoveAuth g' \<notin> fst ` set (t0 @ t1 @ ta)" for g'
    using calls by (auto simp: directory_calls_def initialize_calls_def acquire_calls_def)
  show ?thesis
  proof (rule conjI; rule impI)
    assume A: "\<not> persistCredentials s \<and>
            (ConfigureAuth g \<in> fst ` set t
             \<or> (r = Inr () \<and>
                 (CreateCommandManager (repositoryPath s) (lfs s), Inr (VGit g)) \<in> set t))"
    then have "g = g0" using same by blast
    moreover from A fin obtain out where "tf = [(RemoveAuth g0, out)]" by auto
    ultimately show "t \<noteq> [] \<and> fst (last t) = RemoveAuth g"
      using native(5) by simp
  next
    assume "persistCredentials s"
    with fin have "tf = []" by simp
    with no_remove native(5) show "\<forall>g'. RemoveAuth g' \<notin> fst ` set t" by simp
  qed
qed


theorem removeAuth_on_every_exit_witness:
  "getSource env_ok settings_tag 0 = (fst (getSource env_ok settings_tag 0), snd (getSource env_ok settings_tag 0))
   \<and> \<not> persistCredentials settings_tag
   \<and> ConfigureAuth (GitCommandManager 3) \<in> fst ` set (snd (getSource env_ok settings_tag 0))
   \<and> snd (getSource env_ok settings_tag 0) \<noteq> []
   \<and> fst (last (snd (getSource env_ok settings_tag 0))) = RemoveAuth (GitCommandManager 3)"
  using removeAuth_on_every_exit [of env_ok settings_tag 0 "fst (getSource env_ok settings_tag 0)"
      "snd (getSource env_ok settings_tag 0)" "GitCommandManager 3"]
  by (simp add: getSource_tag settings_tag_fields)

section \<open>Configuration conflicts of the download fallback (C4)\<close>

text \<open>
  Claim C4. In a run of \<^verbatim>\<open>getSource\<close> in which the construction of the command manager
  failed, if \<open>submodules\<close> is set or \<open>sshKey\<close> is not empty, the run ends with an error,
  \<^verbatim>\<open>downloadRepository\<close> is never called, and the only calls made are the directory calls,
  the failed construction and the preparation of the existing directory with no client:
  no network call at all. When \<open>lfs\<close> is not set and that preparation does not throw, the
  error is the one \<^verbatim>\<open>getSource\<close> throws itself, for \<open>submodules\<close> first and for
  \<open>sshKey\<close> otherwise.
\<close>

theorem fallback_conflict_raised_before_download:
  assumes "getSource E s n = (r, t)"
    and "(CreateCommandManager (repositoryPath s) (lfs s), Inl e) \<in> set t"
    and "submodules s \<or> sshKey s \<noteq> []"
  shows "(\<exists>e'. r = Inl e')
    \<and> (\<forall>a b c d e f. DownloadRepository a b c d e f \<notin> fst ` set t)
    \<and> fst ` set t \<subseteq> {FileExistsSync (repositoryPath s), RmRF (repositoryPath s),
           DirectoryExistsSync (repositoryPath s), MkdirP (repositoryPath s),
           CreateCommandManager (repositoryPath s) (lfs s),
           PrepareExistingDirectory None (repositoryPath s) (getFetchUrl E s) (clean s) (ref s)}
    \<and> (\<not> lfs s \<and> (\<forall>e'. (PrepareExistingDirectory None (repositoryPath s) (getFetchUrl E s)
                           (clean s) (ref s), Inl e') \<notin> set t)
         \<longrightarrow> r = Inl (if submodules s then submodulesNotSupported E
                        else sshKeyNotSupported E))"
  using assms(1)
proof (cases rule: getSource_cases)
  case (failed_early e')
  with prepareDirectory_after_failure [OF failed_early(1), of e] assms(2)
  show ?thesis by auto
next
  case (rest_api t0 t1)
  from downloadUsingRestApi_cases [OF rest_api(2)] assms(3)
  have t1: "t1 = []" and r: "r = Inl (if submodules s then submodulesNotSupported E
                        else sshKeyNotSupported E)"
    by (auto split: if_splits)
  with prepareDirectory_after_failure(1) [OF rest_api(1), of e] assms(2) rest_api(3)
  show ?thesis by auto
next
  case (init_failed g t0 t1 e')
  with native_after_construction [OF init_failed(1), of e t1 "[]" "[]"] assms(2)
    initializeRepository_calls' [OF init_failed(2)]
  show ?thesis by simp
next
  case (native g t0 t1 ra ta rf tf)
  with native_after_construction [OF native(1), of e t1 ta tf] assms(2)
    initializeRepository_calls' [OF native(2)] acquire_calls' [OF native(3)]
    removeAuthUnlessPersisted_calls [OF native(4)]
  show ?thesis by simp
qed

theorem fallback_conflict_raised_before_download_witness:
  "(CreateCommandManager (repositoryPath (settings_tag\<lparr>submodules := True\<rparr>))
        (lfs (settings_tag\<lparr>submodules := True\<rparr>)), Inl (Error ''git not found''))
      \<in> set (snd (getSource env_nogit (settings_tag\<lparr>submodules := True\<rparr>) 0))
   \<and> submodules (settings_tag\<lparr>submodules := True\<rparr>)
   \<and> fst (getSource env_nogit (settings_tag\<lparr>submodules := True\<rparr>) 0)
        = Inl (submodulesNotSupported env_nogit)
   \<and> (\<forall>a b c d e f. DownloadRepository a b c d e f
         \<notin> fst ` set (snd (getSource env_nogit (settings_tag\<lparr>submodules := True\<rparr>) 0)))"
proof -
  have run: "getSource env_nogit (settings_tag\<lparr>submodules := True\<rparr>) 0 =
    (Inl (submodulesNotSupported env_nogit),
     [(FileExistsSync ''/w'', Inr (VBool True)), (RmRF ''/w'', Inr VUnit),
      (DirectoryExistsSync ''/w'', Inr (VBool True)),
      (CreateCommandManager ''/w'' False, Inl (Error ''git not found'')),
      (PrepareExistingDirectory None ''/w'' ''https://github.com/o/r'' True ''v1'', Inr VUnit)])"
    by (simp add: run_defs env_nogit_fields env_ok_fields settings_tag_fields)
  show ?thesis
    using fallback_conflict_raised_before_download [where E = env_nogit
        and s = "settings_tag\<lparr>submodules := True\<rparr>" and n = 0
        and e = "Error ''git not found''"
        and r = "fst (getSource env_nogit (settings_tag\<lparr>submodules := True\<rparr>) 0)"
        and t = "snd (getSource env_nogit (settings_tag\<lparr>submodules := True\<rparr>) 0)"]
    by (simp add: run settings_tag_fields)
qed

section \<open>Failure to construct the command manager (C5)\<close>

text \<open>
  Claim C5. When the construction of the command manager fails, \<^verbatim>\<open>getGitCommandManager\<close>
  rethrows the error if \<open>lfs\<close> is set and returns \<^verbatim>\<open>undefined\<close> otherwise, having made
  that one call. In a run of \<^verbatim>\<open>getSource\<close> whose construction failed: with \<open>lfs\<close> the run
  ends there with that error; without \<open>lfs\<close> the run makes no call on any command manager,
  only directory calls, the preparation of the existing directory with no client, and the
  download, and when that preparation does not throw and neither \<open>submodules\<close> nor
  \<open>sshKey\<close> is set, the last call of the run is \<^verbatim>\<open>downloadRepository\<close> with the settings'
  arguments, whose outcome is the outcome of the run.
\<close>

theorem construction_failure_lfs_fatal_else_download:
  "(git_result E k (CreateCommandManager p l) = Inl e \<longrightarrow>
      getGitCommandManager E p l k =
        (if l then Inl e else Inr None, [(CreateCommandManager p l, Inl e)]))
   \<and> (getSource E s n = (r, t)
        \<and> (CreateCommandManager (repositoryPath s) (lfs s), Inl e) \<in> set t \<longrightarrow>
       (lfs s \<longrightarrow> r = Inl e
          \<and> last t = (CreateCommandManager (repositoryPath s) (lfs s), Inl e))
     \<and> (\<not> lfs s \<longrightarrow>
          fst ` set t \<subseteq> {FileExistsSync (repositoryPath s), RmRF (repositoryPath s),
             DirectoryExistsSync (repositoryPath s), MkdirP (repositoryPath s),
             CreateCommandManager (repositoryPath s) (lfs s),
             PrepareExistingDirectory None (repositoryPath s) (getFetchUrl E s) (clean s) (ref s),
             DownloadRepository (authToken s) (repositoryOwner s) (repositoryName s) (ref s)
               (commit s) (repositoryPath s)}
        \<and> ((\<forall>e'. (PrepareExistingDirectory None (repositoryPath s) (getFetchUrl E s)
                     (clean s) (ref s), Inl e') \<notin> set t)
             \<and> \<not> submodules s \<and> sshKey s = [] \<longrightarrow>
            (\<exists>out. last t = (DownloadRepository (authToken s) (repositoryOwner s)
                        (repositoryName s) (ref s) (commit s) (repositoryPath s), out)
                 \<and> (r = Inr () \<longleftrightarrow> out = Inr VUnit)))))"
proof (intro conjI impI; (elim conjE)?)
  assume "git_result E k (CreateCommandManager p l) = Inl e"
  then show "getGitCommandManager E p l k =
        (if l then Inl e else Inr None, [(CreateCommandManager p l, Inl e)])"
    by (simp add: getGitCommandManager_def try_catch_def io_bind_def call_git_def invoke_def
        io_throw_def io_return_def)
next
  assume run: "getSource E s n = (r, t)"
    and failed: "(CreateCommandManager (repositoryPath s) (lfs s), Inl e) \<in> set t"
    and "lfs s"
  from run show "r = Inl e"
  proof (cases rule: getSource_cases)
    case (failed_early e')
    with prepareDirectory_after_failure(2) [OF failed_early(1)] failed \<open>lfs s\<close> show ?thesis
      by simp
  next
    case (rest_api t0 t1)
    with prepareDirectory_None [OF rest_api(1)] \<open>lfs s\<close> show ?thesis by simp
  next
    case (init_failed g t0 t1 e')
    with native_after_construction [OF init_failed(1), of e t1 "[]" "[]"] failed
      initializeRepository_calls' [OF init_failed(2)]
    show ?thesis by simp
  next
    case (native g t0 t1 ra ta rf tf)
    with native_after_construction [OF native(1), of e t1 ta tf] failed
      initializeRepository_calls' [OF native(2)] acquire_calls' [OF native(3)]
      removeAuthUnlessPersisted_calls [OF native(4)]
    show ?thesis by simp
  qed
next
  assume run: "getSource E s n = (r, t)"
    and failed: "(CreateCommandManager (repositoryPath s) (lfs s), Inl e) \<in> set t"
    and "lfs s"
  from run show "last t = (CreateCommandManager (repositoryPath s) (lfs s), Inl e)"
  proof (cases rule: getSource_cases)
    case (failed_early e')
    with prepareDirectory_after_failure(2) [OF failed_early(1)] failed \<open>lfs s\<close> show ?thesis
      by simp
  next
    case (rest_api t0 t1)
    with prepareDirectory_None [OF rest_api(1)] \<open>lfs s\<close> show ?thesis by simp
  next
    case (init_failed g t0 t1 e')
    with native_after_construction [OF init_failed(1), of e t1 "[]" "[]"] failed
      initializeRepository_calls' [OF init_failed(2)]
    show ?thesis by simp
  next
    case (native g t0 t1 ra ta rf tf)
    with native_after_construction [OF native(1), of e t1 ta tf] failed
      initializeRepository_calls' [OF native(2)] acquire_calls' [OF native(3)]
      removeAuthUnlessPersisted_calls [OF native(4)]
    show ?thesis by simp
  qed
next
  assume run: "getSource E s n = (r, t)"
    and failed: "(CreateCommandManager (repositoryPath s) (lfs s), Inl e) \<in> set t"
    and "\<not> lfs s"
  let ?A = "{FileExistsSync (repositoryPath s), RmRF (repositoryPath s),
             DirectoryExistsSync (repositoryPath s), MkdirP (repositoryPath s),
             CreateCommandManager (repositoryPath s) (lfs s),
             PrepareExistingDirectory None (repositoryPath s) (getFetchUrl E s) (clean s) (ref s),
             DownloadRepository (authToken s) (repositoryOwner s) (repositoryName s) (ref s)
               (commit s) (repositoryPath s)}"
  from run show "fst ` set t \<subseteq> ?A"
  proof (cases rule: getSource_cases)
    case (failed_early e')
    with prepareDirectory_after_failure(1) [OF failed_early(1)] failed show ?thesis
      by auto
  next
    case (rest_api t0 t1)
    have "(CreateCommandManager (repositoryPath s) (lfs s), Inl e) \<in> set t0"
      using failed rest_api(3) downloadUsingRestApi_calls' [OF rest_api(2)] by auto
    from prepareDirectory_after_failure(1) [OF rest_api(1) this]
      downloadUsingRestApi_calls' [OF rest_api(2)] rest_api(3)
    show ?thesis by auto
  next
    case (init_failed g t0 t1 e')
    with native_after_construction [OF init_failed(1), of e t1 "[]" "[]"] failed
      initializeRepository_calls' [OF init_failed(2)]
    show ?thesis by simp
  next
    case (native g t0 t1 ra ta rf tf)
    with native_after_construction [OF native(1), of e t1 ta tf] failed
      initializeRepository_calls' [OF native(2)] acquire_calls' [OF native(3)]
      removeAuthUnlessPersisted_calls [OF native(4)]
    show ?thesis by simp
  qed
next
  assume run: "getSource E s n = (r, t)"
    and failed: "(CreateCommandManager (repositoryPath s) (lfs s), Inl e) \<in> set t"
    and "\<not> lfs s"
    and quiet: "\<forall>e'. (PrepareExistingDirectory None (repositoryPath s) (getFetchUrl E s)
                     (clean s) (ref s), Inl e') \<notin> set t"
    and plain: "\<not> submodules s" "sshKey s = []"
  from run show "\<exists>out. last t = (DownloadRepository (authToken s) (repositoryOwner s)
                        (repositoryName s) (ref s) (commit s) (repositoryPath s), out)
                 \<and> (r = Inr () \<longleftrightarrow> out = Inr VUnit)"
  proof (cases rule: getSource_cases)
    case (failed_early e')
    with prepareDirectory_after_failure(3) [OF failed_early(1)] failed \<open>\<not> lfs s\<close> quiet
    show ?thesis by auto
  next
    case (rest_api t0 t1)
    with downloadUsingRestApi_cases [OF rest_api(2)] plain show ?thesis by auto
  next
    case (init_failed g t0 t1 e')
    with native_after_construction [OF init_failed(1), of e t1 "[]" "[]"] failed
      initializeRepository_calls' [OF init_failed(2)]
    show ?thesis by simp
  next
    case (native g t0 t1 ra ta rf tf)
    with native_after_construction [OF native(1), of e t1 ta tf] failed
      initializeRepository_calls' [OF native(2)] acquire_calls' [OF native(3)]
      removeAuthUnlessPersisted_calls [OF native(4)]
    show ?thesis by simp
  qed
qed

theorem construction_failure_lfs_fatal_else_download_witness:
  "git_result env_nogit 3 (CreateCommandManager ''/w'' False) = Inl (Error ''git not found'')
   \<and> getGitCommandManager env_nogit ''/w'' False 3 =
        (Inr None, [(CreateCommandManager ''/w'' False, Inl (Error ''git not found''))])
   \<and> (CreateCommandManager (repositoryPath settings_tag) (lfs settings_tag),
        Inl (Error ''git not found'')) \<in> set (snd (getSource env_nogit settings_tag 0))
   \<and> \<not> lfs settings_tag \<and> \<not> submodules settings_tag \<and> sshKey settings_tag = []
   \<and> fst (getSource env_nogit settings_tag 0) = Inr ()
   \<and> last (snd (getSource env_nogit settings_tag 0)) =
        (DownloadRepository ''t'' ''o'' ''r'' ''v1'' [] ''/w'', Inr VUnit)"
  using construction_failure_lfs_fatal_else_download [where E = env_nogit and k = 3
      and p = "''/w''" and l = False and e = "Error ''git not found''"
      and s = settings_tag and n = 0 and r = "fst (getSource env_nogit settings_tag 0)"
      and t = "snd (getSource env_nogit settings_tag 0)"]
  by (simp add: getSource_nogit settings_tag_fields env_nogit_fields env_ok_fields
      getGitCommandManager_def try_catch_def io_bind_def call_git_def invoke_def io_return_def)

lemma checkoutRef_returns:
  assumes "checkoutRef E s g n = (Inr (), t)"
  shows "\<exists>x y. (Checkout g x y, Inr VUnit) \<in> set t"
  using assms unfolding checkoutRef_def by (auto elim!: runE)

lemma fetchAndCheckout_returns_after_checkout:
  assumes "fetchAndCheckout E s g n = (Inr (), t)"
  shows "\<exists>x y. (Checkout g x y, Inr VUnit) \<in> set t"
proof -
  from assms obtain rL tL rF tF rC tC rS tS tK where
    "io_when (lfs s) (call_void E (LfsInstall g)) n = (rL, tL)"
    "continues rL (\<lambda>_. fetchRepository E s g) (n + length tL) (rF, tF)"
    and C: "continues rF (\<lambda>_. checkoutRef E s g) (n + length tL + length tF) (rC, tC)"
    and S: "continues rC (\<lambda>_. fetchSubmodules E s g) (n + length tL + length tF + length tC) (rS, tS)"
    and K: "continues rS (\<lambda>_. checkCommit E s g)
         (n + length tL + length tF + length tC + length tS) (Inr (), tK)"
    and t: "t = tL @ tF @ tC @ tS @ tK"
    by (rule fetchAndCheckout_shape)
  from continues_Inr [OF K] have "rS = Inr ()" by auto
  with continues_Inr [of rC _ _ "()" tS] S have "rC = Inr ()" by auto
  with continues_Inr [of rF _ _ "()" tC] C
  have "checkoutRef E s g (n + length tL + length tF) = (Inr (), tC)" by auto
  from checkoutRef_returns [OF this] t show ?thesis by auto
qed

lemma acquire_returns_after_checkout:
  assumes "acquire E s g url n = (Inr (), t)"
  shows "\<exists>x y. (Checkout g x y, Inr VUnit) \<in> set t"
proof -
  from assms obtain rA tA rD tD tR where
    "call_void E (ConfigureAuth g) n = (rA, tA)"
    "continues rA (\<lambda>_. determineDefaultBranch E s g url) (n + length tA) (rD, tD)"
    and R: "continues rD (\<lambda>s'. fetchAndCheckout E s' g) (n + length tA + length tD) (Inr (), tR)"
    and t: "t = tA @ tD @ tR"
    by (rule acquire_shape)
  from continues_Inr [OF R] obtain s'
    where "fetchAndCheckout E s' g (n + length tA + length tD) = (Inr (), tR)" by blast
  from fetchAndCheckout_returns_after_checkout [OF this] t show ?thesis by auto
qed

section \<open>One acquisition method per call (C9)\<close>

text \<open>
  Claim C9. A run of \<^verbatim>\<open>getSource\<close> never uses both acquisition methods. If it calls
  \<^verbatim>\<open>downloadRepository\<close>, that call has the settings' arguments and is the last call of the
  run, no command manager was constructed, and the run makes no call on a command manager
  (no init, fetch or checkout): only directory calls, the failed construction and the
  preparation of the existing directory with no client. If the command manager was
  constructed, \<^verbatim>\<open>downloadRepository\<close> is never called. A run that returns normally used
  exactly one of the two: it either called \<^verbatim>\<open>downloadRepository\<close> or completed a checkout.
  A run that ends with an error may have used neither, as the run below shows; so
  "exactly one" holds of the runs that return, and "never both" of all runs.
\<close>

theorem exactly_one_acquisition_method:
  assumes "getSource E s n = (r, t)"
  shows "((\<exists>a b c d e f. DownloadRepository a b c d e f \<in> fst ` set t) \<longrightarrow>
            fst (last t) = DownloadRepository (authToken s) (repositoryOwner s)
              (repositoryName s) (ref s) (commit s) (repositoryPath s)
          \<and> fst ` set t \<subseteq> {FileExistsSync (repositoryPath s), RmRF (repositoryPath s),
               DirectoryExistsSync (repositoryPath s), MkdirP (repositoryPath s),
               CreateCommandManager (repositoryPath s) (lfs s),
               PrepareExistingDirectory None (repositoryPath s) (getFetchUrl E s) (clean s) (ref s),
               DownloadRepository (authToken s) (repositoryOwner s) (repositoryName s) (ref s)
                 (commit s) (repositoryPath s)}
          \<and> (\<forall>g. (CreateCommandManager (repositoryPath s) (lfs s), Inr (VGit g)) \<notin> set t))
       \<and> ((\<exists>g. (CreateCommandManager (repositoryPath s) (lfs s), Inr (VGit g)) \<in> set t) \<longrightarrow>
            (\<forall>a b c d e f. DownloadRepository a b c d e f \<notin> fst ` set t))
       \<and> (r = Inr () \<longrightarrow>
            (\<exists>a b c d e f. DownloadRepository a b c d e f \<in> fst ` set t)
            \<noteq> (\<exists>g x y. (Checkout g x y, Inr VUnit) \<in> set t))"
  using assms
proof (cases rule: getSource_cases)
  case (failed_early e)
  with prepareDirectory_calls [OF failed_early(1)]
  show ?thesis by (auto simp: directory_calls_def)
next
  case (rest_api t0 t1)
  from prepareDirectory_None [OF rest_api(1)] obtain e
    where e: "(CreateCommandManager (repositoryPath s) (lfs s), Inl e) \<in> set t0" by blast
  note pre = prepareDirectory_after_failure(1) [OF rest_api(1) e]
  have no_git: "(CreateCommandManager (repositoryPath s) (lfs s), Inr (VGit g)) \<notin> set t0" for g
    using prepareDirectory_constructed [OF rest_api(1), of "VGit g"] by auto
  from downloadUsingRestApi_cases [OF rest_api(2)]
  consider (conflict) e' where "r = Inl e'" "t1 = []"
    | (download) out where "t1 = [(DownloadRepository (authToken s) (repositoryOwner s)
                (repositoryName s) (ref s) (commit s) (repositoryPath s), out)]"
        "r = Inr () \<longleftrightarrow> out = Inr VUnit"
    by (auto split: if_splits)
  then show ?thesis
  proof cases
    case conflict
    with pre no_git rest_api(3) show ?thesis by auto
  next
    case download
    have no_checkout: "\<not> (\<exists>g x y. (Checkout g x y, Inr VUnit) \<in> set t)"
      using pre download(1) rest_api(3) by auto
    have dl: "\<exists>a b c d e f. DownloadRepository a b c d e f \<in> fst ` set t"
      using download(1) rest_api(3) by force
    have "fst (last t) = DownloadRepository (authToken s) (repositoryOwner s)
              (repositoryName s) (ref s) (commit s) (repositoryPath s)"
      using download(1) rest_api(3) by simp
    moreover have "fst ` set t \<subseteq> {FileExistsSync (repositoryPath s), RmRF (repositoryPath s),
               DirectoryExistsSync (repositoryPath s), MkdirP (repositoryPath s),
               CreateCommandManager (repositoryPath s) (lfs s),
               PrepareExistingDirectory None (repositoryPath s) (getFetchUrl E s) (clean s) (ref s),
               DownloadRepository (authToken s) (repositoryOwner s) (repositoryName s) (ref s)
                 (commit s) (repositoryPath s)}"
      using pre download(1) rest_api(3) by auto
    moreover have "\<forall>g. (CreateCommandManager (repositoryPath s) (lfs s), Inr (VGit g)) \<notin> set t"
      using no_git download(1) rest_api(3) by auto
    ultimately show ?thesis using no_checkout dl by blast
  qed
next
  case (init_failed g t0 t1 e)
  with prepareDirectory_calls [OF init_failed(1)] initializeRepository_calls' [OF init_failed(2)]
  show ?thesis by (auto simp: directory_calls_def initialize_calls_def)
next
  case (native g t0 t1 ra ta rf tf)
  note calls = prepareDirectory_calls [OF native(1)] initializeRepository_calls' [OF native(2)]
    acquire_calls' [OF native(3)] removeAuthUnlessPersisted_calls [OF native(4)]
  have no_download: "DownloadRepository a b c d e f \<notin> fst ` set t" for a b c d e f
    using calls native(5)
    by (auto simp: directory_calls_def initialize_calls_def acquire_calls_def)
  have "\<exists>x y. (Checkout g x y, Inr VUnit) \<in> set t" if "r = Inr ()"
  proof -
    from that native(6) have "ra = Inr ()" by (cases rf) auto
    with acquire_returns_after_checkout native(3,5) show ?thesis by fastforce
  qed
  with no_download show ?thesis by blast
qed

theorem exactly_one_acquisition_method_witness:
  "(\<exists>a b c d e f. DownloadRepository a b c d e f \<in> fst ` set (snd (getSource env_nogit settings_tag 0)))
   \<and> fst (getSource env_nogit settings_tag 0) = Inr ()
   \<and> fst (last (snd (getSource env_nogit settings_tag 0))) =
        DownloadRepository ''t'' ''o'' ''r'' ''v1'' [] ''/w''
   \<and> \<not> (\<exists>g x y. (Checkout g x y, Inr VUnit) \<in> set (snd (getSource env_nogit settings_tag 0)))
   \<and> (\<exists>g. (CreateCommandManager (repositoryPath settings_tag) (lfs settings_tag), Inr (VGit g))
          \<in> set (snd (getSource env_ok settings_tag 0)))
   \<and> fst (getSource env_ok settings_tag 0) = Inr ()
   \<and> (\<forall>a b c d e f. DownloadRepository a b c d e f
          \<notin> fst ` set (snd (getSource env_ok settings_tag 0)))
   \<and> (\<exists>g x y. (Checkout g x y, Inr VUnit) \<in> set (snd (getSource env_ok settings_tag 0)))"
  using exactly_one_acquisition_method [where E = env_nogit and s = settings_tag and n = 0
      and r = "fst (getSource env_nogit settings_tag 0)"
      and t = "snd (getSource env_nogit settings_tag 0)"]
    exactly_one_acquisition_method [where E = env_ok and s = settings_tag and n = 0
      and r = "fst (getSource env_ok settings_tag 0)"
      and t = "snd (getSource env_ok settings_tag 0)"]
  by (simp add: getSource_nogit getSource_tag settings_tag_fields)

text \<open>
  A run that uses neither method: there is no native client and \<open>submodules\<close> is set, so
  \<^verbatim>\<open>getSource\<close> throws its own error before the download (source lines 56-59). The run
  makes five calls; none is \<^verbatim>\<open>downloadRepository\<close> and none is made on a command manager.
\<close>

theorem exactly_one_acquisition_method_counterexample:
  "getSource env_nogit (settings_tag\<lparr>submodules := True\<rparr>) 0 =
    (Inl (submodulesNotSupported env_nogit),
     [(FileExistsSync ''/w'', Inr (VBool True)), (RmRF ''/w'', Inr VUnit),
      (DirectoryExistsSync ''/w'', Inr (VBool True)),
      (CreateCommandManager ''/w'' False, Inl (Error ''git not found'')),
      (PrepareExistingDirectory None ''/w'' ''https://github.com/o/r'' True ''v1'', Inr VUnit)])
   \<and> DownloadRepository ''t'' ''o'' ''r'' ''v1'' [] ''/w''
        \<notin> fst ` set (snd (getSource env_nogit (settings_tag\<lparr>submodules := True\<rparr>) 0))
   \<and> (CreateCommandManager ''/w'' False, Inr (VGit (GitCommandManager 3)))
        \<notin> set (snd (getSource env_nogit (settings_tag\<lparr>submodules := True\<rparr>) 0))"
proof -
  have run: "getSource env_nogit (settings_tag\<lparr>submodules := True\<rparr>) 0 =
    (Inl (submodulesNotSupported env_nogit),
     [(FileExistsSync ''/w'', Inr (VBool True)), (RmRF ''/w'', Inr VUnit),
      (DirectoryExistsSync ''/w'', Inr (VBool True)),
      (CreateCommandManager ''/w'' False, Inl (Error ''git not found'')),
      (PrepareExistingDirectory None ''/w'' ''https://github.com/o/r'' True ''v1'', Inr VUnit)])"
    by (simp add: run_defs env_nogit_fields env_ok_fields settings_tag_fields)
  show ?thesis by (simp add: run)
qed

section \<open>Global auth is scoped to the submodules phase (C7)\<close>

text \<open>
  Claim C7. A run of \<^verbatim>\<open>getSource\<close> either makes no submodule call at all (and then, when
  \<open>submodules\<close> is set, no checkout has returned: the phase was not reached), or
  \<open>submodules\<close> is set and the run has the shape
  \<open>pre @ (ConfigureGlobalAuth g, out) # mid @ (RemoveGlobalAuth g, out') # post\<close>:
  \<^verbatim>\<open>configureGlobalAuth\<close> is called first, every operation of the phase (the events of
  \<open>mid\<close>) comes after it and only when it returned, \<^verbatim>\<open>removeGlobalAuth\<close> is called
  whether \<^verbatim>\<open>configureGlobalAuth\<close> or any later operation threw or all returned, and
  after it only the commit check and \<^verbatim>\<open>removeAuth\<close> follow. Neither \<open>pre\<close> nor
  \<open>post\<close> contains a submodule call, and \<open>mid\<close> contains no second
  \<^verbatim>\<open>configureGlobalAuth\<close> or \<^verbatim>\<open>removeGlobalAuth\<close>.
\<close>

theorem global_auth_scopes_submodules:
  assumes "getSource E s n = (r, t)"
  shows "((\<forall>ev \<in> set t. \<not> is_submodule_call (fst ev))
          \<and> (submodules s \<longrightarrow> (\<forall>g x y. (Checkout g x y, Inr VUnit) \<notin> set t)))
       \<or> (submodules s \<and> (\<exists>g pre out mid out' post.
            t = pre @ (ConfigureGlobalAuth g, out) # mid @ (RemoveGlobalAuth g, out') # post
            \<and> (out \<noteq> Inr VUnit \<longrightarrow> mid = [])
            \<and> (\<forall>ev \<in> set pre \<union> set post. \<not> is_submodule_call (fst ev))
            \<and> (\<forall>ev \<in> set mid. \<forall>g'. fst ev \<noteq> ConfigureGlobalAuth g'
                   \<and> fst ev \<noteq> RemoveGlobalAuth g')
            \<and> fst ` set post \<subseteq> {c. (\<exists>a. c = Log1 g a)
                 \<or> (\<exists>a b d e f h. c = CheckCommitInfo a b d e f h) \<or> c = RemoveAuth g}))"
  using assms
proof (cases rule: getSource_submodule_phase)
  case no_phase
  then have "(\<forall>ev \<in> set t. \<not> is_submodule_call (fst ev))
          \<and> (submodules s \<longrightarrow> (\<forall>g x y. (Checkout g x y, Inr VUnit) \<notin> set t))"
    by blast
  then show ?thesis by (rule disjI1)
next
  case (phase g s' pre m rB tB out' post)
  from checkoutSubmodules_scope [OF phase(2)] obtain out mid where
    tB: "tB = (ConfigureGlobalAuth g, out) # mid" and mid: "out \<noteq> Inr VUnit \<longrightarrow> mid = []"
    and calls: "fst ` set mid \<subseteq> {SubmoduleSync g (nestedSubmodules s'),
                SubmoduleUpdate g (fetchDepth s') (nestedSubmodules s'),
                SubmoduleForeach g ''git config --local gc.auto 0'' (nestedSubmodules s'),
                ConfigureSubmoduleAuth g, GetSubmodulesList g} \<union> override_calls E s'"
    by blast
  have inner: "\<forall>ev \<in> set mid. \<forall>g'. fst ev \<noteq> ConfigureGlobalAuth g'
                   \<and> fst ev \<noteq> RemoveGlobalAuth g'"
    using calls by (auto simp: override_calls_def)
  have shape: "t = pre @ (ConfigureGlobalAuth g, out) # mid @ (RemoveGlobalAuth g, out') # post"
    using phase(1) tB by simp
  have outside: "\<forall>ev \<in> set pre \<union> set post. \<not> is_submodule_call (fst ev)"
    using phase(9) by blast
  show ?thesis
    apply (rule disjI2, rule conjI, rule phase(3))
    apply (rule exI [of _ g], rule exI [of _ pre], rule exI [of _ out], rule exI [of _ mid],
        rule exI [of _ out'], rule exI [of _ post])
    apply (intro conjI shape mid outside inner phase(10))
    done
qed

theorem global_auth_scopes_submodules_witness:
  "submodules settings_sub
   \<and> (\<exists>g pre out mid out' post.
        snd (getSource env_sub settings_sub 0)
          = pre @ (ConfigureGlobalAuth g, out) # mid @ (RemoveGlobalAuth g, out') # post
        \<and> (out \<noteq> Inr VUnit \<longrightarrow> mid = [])
        \<and> (\<forall>ev \<in> set pre \<union> set post. \<not> is_submodule_call (fst ev))
        \<and> (\<forall>ev \<in> set mid. \<forall>g'. fst ev \<noteq> ConfigureGlobalAuth g'
               \<and> fst ev \<noteq> RemoveGlobalAuth g')
        \<and> fst ` set post \<subseteq> {c. (\<exists>a. c = Log1 g a)
             \<or> (\<exists>a b d e f h. c = CheckCommitInfo a b d e f h) \<or> c = RemoveAuth g})"
proof -
  have "(ConfigureGlobalAuth (GitCommandManager 3), Inr VUnit)
      \<in> set (snd (getSource env_sub settings_sub 0))"
    by (simp add: getSource_sub)
  then have "\<not> (\<forall>ev \<in> set (snd (getSource env_sub settings_sub 0)). \<not> is_submodule_call (fst ev))"
    by force
  with global_auth_scopes_submodules [of env_sub settings_sub 0, OF surjective_pairing]
  show ?thesis by (rule disj_elim_left)
qed



section \<open>Credentials are persisted into the submodules (C10)\<close>



section \<open>When the default branch replaces the ref (C3)\<close>

text \<open>
  Claim C3, as the code has it (line 107). Take a run of \<^verbatim>\<open>getSource\<close>. With no ref and a
  commit, the default branch is never looked up. With a ref, either the run ended before
  auth was configured (no lookup, no fetch), or \<^verbatim>\<open>git.remoteBranchExists(settings.ref)\<close> is
  called right after \<^verbatim>\<open>configureAuth\<close> returned, before any lookup or fetch, and:
  if it answers \<open>true\<close>, no lookup is made and the first fetch is made for the ref as given;
  if it answers \<open>false\<close>, the default branch is looked up at once (through the native
  client with an SSH key, through the API otherwise) and, when the lookup returns \<open>b\<close>, the
  first fetch is made for \<open>b\<close>: the default branch replaces the ref; if it throws, nothing
  is looked up or fetched. A run that returns has fetched.
\<close>

theorem default_branch_replaces_missing_branch:
  assumes "getSource E s n = (r, t)"
  shows "(ref s = [] \<and> commit s \<noteq> [] \<longrightarrow> lookups t = [])
    \<and> (ref s \<noteq> [] \<longrightarrow>
        (lookups t = [] \<and> fetches t = [] \<and> (\<forall>g. (ConfigureAuth g, Inr VUnit) \<notin> set t))
      \<or> (\<exists>g pre out post. t = pre @ (RemoteBranchExists g (ref s), out) # post
           \<and> pre \<noteq> [] \<and> last pre = (ConfigureAuth g, Inr VUnit)
           \<and> lookups pre = [] \<and> fetches pre = []
           \<and> (out = Inr (VBool True) \<longrightarrow> lookups post = []
                \<and> (fetches post = [] \<or> hd (fetches post) = first_fetch E s g (ref s))
                \<and> (r = Inr () \<longrightarrow> fetches post \<noteq> []))
           \<and> (out = Inr (VBool False) \<longrightarrow> (\<exists>out2 post2.
                post = (if sshKey s \<noteq> [] then GitGetDefaultBranch g (getFetchUrl E s)
                        else ApiGetDefaultBranch (authToken s) (repositoryOwner s)
                               (repositoryName s), out2) # post2
                \<and> lookups post2 = []
                \<and> (\<forall>e. out2 = Inl e \<longrightarrow> fetches post2 = [] \<and> r \<noteq> Inr ())
                \<and> (\<forall>b. out2 = Inr (VString b) \<longrightarrow>
                      (fetches post2 = [] \<or> hd (fetches post2) = first_fetch E s g b)
                      \<and> (r = Inr () \<longrightarrow> fetches post2 \<noteq> []))))
           \<and> (\<forall>e. out = Inl e \<longrightarrow> lookups post = [] \<and> fetches post = [] \<and> r \<noteq> Inr ())))"
  using assms
proof (cases rule: getSource_resolving)
  case early
  then show ?thesis by blast
next
  case (resolving g pre m rD tD post)
  let ?c = "if sshKey s \<noteq> [] then GitGetDefaultBranch g (getFetchUrl E s)
            else ApiGetDefaultBranch (authToken s) (repositoryOwner s) (repositoryName s)"
  have first: "ref s = [] \<and> commit s \<noteq> [] \<longrightarrow> lookups t = []"
  proof
    assume a: "ref s = [] \<and> commit s \<noteq> []"
    from resolving(2) have "tD = []"
      using a by (cases rule: determineDefaultBranch_cases) auto
    with resolving(1,5,8) show "lookups t = []" by simp
  qed
  have second: "\<exists>g pre out post. t = pre @ (RemoteBranchExists g (ref s), out) # post
           \<and> pre \<noteq> [] \<and> last pre = (ConfigureAuth g, Inr VUnit)
           \<and> lookups pre = [] \<and> fetches pre = []
           \<and> (out = Inr (VBool True) \<longrightarrow> lookups post = []
                \<and> (fetches post = [] \<or> hd (fetches post) = first_fetch E s g (ref s))
                \<and> (r = Inr () \<longrightarrow> fetches post \<noteq> []))
           \<and> (out = Inr (VBool False) \<longrightarrow> (\<exists>out2 post2.
                post = (if sshKey s \<noteq> [] then GitGetDefaultBranch g (getFetchUrl E s)
                        else ApiGetDefaultBranch (authToken s) (repositoryOwner s)
                               (repositoryName s), out2) # post2
                \<and> lookups post2 = []
                \<and> (\<forall>e. out2 = Inl e \<longrightarrow> fetches post2 = [] \<and> r \<noteq> Inr ())
                \<and> (\<forall>b. out2 = Inr (VString b) \<longrightarrow>
                      (fetches post2 = [] \<or> hd (fetches post2) = first_fetch E s g b)
                      \<and> (r = Inr () \<longrightarrow> fetches post2 \<noteq> []))))
           \<and> (\<forall>e. out = Inl e \<longrightarrow> lookups post = [] \<and> fetches post = [] \<and> r \<noteq> Inr ())"
    if ref: "ref s \<noteq> []"
    using resolving(2)
  proof (cases rule: determineDefaultBranch_cases)
    case kept_commit
    with ref show ?thesis by simp
  next
    case kept_branch
    have t: "t = pre @ (RemoteBranchExists g (ref s), Inr (VBool True)) # post"
      using resolving(1) kept_branch(2) by simp
    have f: "fetches post = [] \<or> hd (fetches post) = first_fetch E s g (ref s)"
      using resolving(10) [OF kept_branch(3)] .
    have ok: "r = Inr () \<longrightarrow> fetches post \<noteq> []" using resolving(11) by blast
    show ?thesis
      apply (rule exI [of _ g], rule exI [of _ pre], rule exI [of _ "Inr (VBool True)"],
          rule exI [of _ post])
      using t resolving(3,4,5,6,8) f ok apply simp
      done
  next
    case (exists_failed e)
    have t: "t = pre @ (RemoteBranchExists g (ref s), Inl e) # post"
      using resolving(1) exists_failed(2) by simp
    have f: "fetches post = []" using resolving(9) [OF exists_failed(3)] .
    have bad: "r \<noteq> Inr ()" using resolving(11) exists_failed(3) by auto
    show ?thesis
      apply (rule exI [of _ g], rule exI [of _ pre], rule exI [of _ "Inl e"],
          rule exI [of _ post])
      using t resolving(3,4,5,6,8) f bad apply simp
      done
  next
    case (lookup_failed tq c e)
    with ref have tq: "tq = [(RemoteBranchExists g (ref s), Inr (VBool False))]" by simp
    have t: "t = pre @ (RemoteBranchExists g (ref s), Inr (VBool False)) # (?c, Inl e) # post"
      using resolving(1) lookup_failed(1,4) tq by simp
    have f: "fetches post = []" using resolving(9) [OF lookup_failed(2)] .
    have bad: "r \<noteq> Inr ()" using resolving(11) lookup_failed(2) by auto
    have inner: "\<exists>out2 post2. (?c, Inl e) # post = (?c, out2) # post2
                \<and> lookups post2 = []
                \<and> (\<forall>e. out2 = Inl e \<longrightarrow> fetches post2 = [] \<and> r \<noteq> Inr ())
                \<and> (\<forall>b. out2 = Inr (VString b) \<longrightarrow>
                      (fetches post2 = [] \<or> hd (fetches post2) = first_fetch E s g b)
                      \<and> (r = Inr () \<longrightarrow> fetches post2 \<noteq> []))"
      apply (rule exI [of _ "Inl e"], rule exI [of _ post])
      using resolving(8) f bad apply simp
      done
    show ?thesis
      apply (rule exI [of _ g], rule exI [of _ pre], rule exI [of _ "Inr (VBool False)"],
          rule exI [of _ "(?c, Inl e) # post"])
      using t resolving(3,4,5,6) inner apply simp
      done
  next
    case (looked_up tq c b)
    with ref have tq: "tq = [(RemoteBranchExists g (ref s), Inr (VBool False))]" by simp
    have t: "t = pre @ (RemoteBranchExists g (ref s), Inr (VBool False))
                 # (?c, Inr (VString b)) # post"
      using resolving(1) looked_up(1,4) tq by simp
    have f: "fetches post = [] \<or> hd (fetches post) = first_fetch E s g b"
      using resolving(10) [OF looked_up(2)] by simp
    have ok: "r = Inr () \<longrightarrow> fetches post \<noteq> []" using resolving(11) by blast
    have inner: "\<exists>out2 post2. (?c, Inr (VString b)) # post = (?c, out2) # post2
                \<and> lookups post2 = []
                \<and> (\<forall>e. out2 = Inl e \<longrightarrow> fetches post2 = [] \<and> r \<noteq> Inr ())
                \<and> (\<forall>b. out2 = Inr (VString b) \<longrightarrow>
                      (fetches post2 = [] \<or> hd (fetches post2) = first_fetch E s g b)
                      \<and> (r = Inr () \<longrightarrow> fetches post2 \<noteq> []))"
      apply (rule exI [of _ "Inr (VString b)"], rule exI [of _ post])
      using resolving(8) f ok apply simp
      done
    show ?thesis
      apply (rule exI [of _ g], rule exI [of _ pre], rule exI [of _ "Inr (VBool False)"],
          rule exI [of _ "(?c, Inr (VString b)) # post"])
      using t resolving(3,4,5,6) inner apply simp
      done
  qed
  from first second show ?thesis by blast
qed

theorem default_branch_replaces_missing_branch_witness:
  "ref settings_tag \<noteq> []
   \<and> (\<exists>g pre out post.
        snd (getSource env_ok settings_tag 0)
          = pre @ (RemoteBranchExists g (ref settings_tag), out) # post
        \<and> pre \<noteq> [] \<and> last pre = (ConfigureAuth g, Inr VUnit)
        \<and> lookups pre = [] \<and> fetches pre = []
        \<and> (out = Inr (VBool True) \<longrightarrow> lookups post = []
             \<and> (fetches post = []
                  \<or> hd (fetches post) = first_fetch env_ok settings_tag g (ref settings_tag))
             \<and> (fst (getSource env_ok settings_tag 0) = Inr () \<longrightarrow> fetches post \<noteq> []))
        \<and> (out = Inr (VBool False) \<longrightarrow> (\<exists>out2 post2.
             post = (if sshKey settings_tag \<noteq> []
                     then GitGetDefaultBranch g (getFetchUrl env_ok settings_tag)
                     else ApiGetDefaultBranch (authToken settings_tag)
                            (repositoryOwner settings_tag) (repositoryName settings_tag), out2)
                    # post2
             \<and> lookups post2 = []
             \<and> (\<forall>e. out2 = Inl e \<longrightarrow> fetches post2 = []
                    \<and> fst (getSource env_ok settings_tag 0) \<noteq> Inr ())
             \<and> (\<forall>b. out2 = Inr (VString b) \<longrightarrow>
                   (fetches post2 = []
                     \<or> hd (fetches post2) = first_fetch env_ok settings_tag g b)
                   \<and> (fst (getSource env_ok settings_tag 0) = Inr ()
                        \<longrightarrow> fetches post2 \<noteq> []))))
        \<and> (\<forall>e. out = Inl e \<longrightarrow> lookups post = [] \<and> fetches post = []
               \<and> fst (getSource env_ok settings_tag 0) \<noteq> Inr ()))"
proof -
  have ne: "ref settings_tag \<noteq> []" by (simp add: settings_tag_fields)
  have "lookups (snd (getSource env_ok settings_tag 0)) \<noteq> []"
    by (simp add: getSource_tag)
  with default_branch_replaces_missing_branch [of env_ok settings_tag 0,
      OF surjective_pairing, THEN conjunct2, THEN mp, OF ne]
  have "\<exists>g pre out post.
        snd (getSource env_ok settings_tag 0)
          = pre @ (RemoteBranchExists g (ref settings_tag), out) # post
        \<and> pre \<noteq> [] \<and> last pre = (ConfigureAuth g, Inr VUnit)
        \<and> lookups pre = [] \<and> fetches pre = []
        \<and> (out = Inr (VBool True) \<longrightarrow> lookups post = []
             \<and> (fetches post = []
                  \<or> hd (fetches post) = first_fetch env_ok settings_tag g (ref settings_tag))
             \<and> (fst (getSource env_ok settings_tag 0) = Inr () \<longrightarrow> fetches post \<noteq> []))
        \<and> (out = Inr (VBool False) \<longrightarrow> (\<exists>out2 post2.
             post = (if sshKey settings_tag \<noteq> []
                     then GitGetDefaultBranch g (getFetchUrl env_ok settings_tag)
                     else ApiGetDefaultBranch (authToken settings_tag)
                            (repositoryOwner settings_tag) (repositoryName settings_tag), out2)
                    # post2
             \<and> lookups post2 = []
             \<and> (\<forall>e. out2 = Inl e \<longrightarrow> fetches post2 = []
                    \<and> fst (getSource env_ok settings_tag 0) \<noteq> Inr ())
             \<and> (\<forall>b. out2 = Inr (VString b) \<longrightarrow>
                   (fetches post2 = []
                     \<or> hd (fetches post2) = first_fetch env_ok settings_tag g b)
                   \<and> (fst (getSource env_ok settings_tag 0) = Inr ()
                        \<longrightarrow> fetches post2 \<noteq> []))))
        \<and> (\<forall>e. out = Inl e \<longrightarrow> lookups post = [] \<and> fetches post = []
               \<and> fst (getSource env_ok settings_tag 0) \<noteq> Inr ())"
    by (rule disj_elim_left)
  with ne show ?thesis by (rule conjI)
qed

text \<open>
  A run that refutes the claim as worded. The ref \<open>v1\<close> is given and is not a branch of the
  remote: \<^verbatim>\<open>remoteBranchExists\<close> answers \<open>false\<close>. The default branch is looked up through
  the API although a ref is given, the answer \<open>main\<close> replaces the ref, and both fetches are
  made for \<open>main\<close>, none for \<open>v1\<close>.
\<close>

theorem default_branch_replaces_missing_branch_counterexample:
  "ref settings_tag = ''v1'' \<and> commit settings_tag = []
   \<and> getSource env_ok settings_tag 0 =
    (Inr (),
     [(FileExistsSync ''/w'', Inr (VBool True)), (RmRF ''/w'', Inr VUnit),
      (DirectoryExistsSync ''/w'', Inr (VBool True)),
      (CreateCommandManager ''/w'' False, Inr (VGit (GitCommandManager 3))),
      (PrepareExistingDirectory (Some (GitCommandManager 3)) ''/w'' ''https://github.com/o/r''
         True ''v1'', Inr VUnit),
      (SetRepositoryPath ''/w'', Inr VUnit),
      (DirectoryExistsSync ''/w/.git'', Inr (VBool True)),
      (TryDisableAutomaticGarbageCollection (GitCommandManager 3), Inr (VBool True)),
      (ConfigureAuth (GitCommandManager 3), Inr VUnit),
      (RemoteBranchExists (GitCommandManager 3) ''v1'', Inr (VBool False)),
      (ApiGetDefaultBranch ''t'' ''o'' ''r'', Inr (VString ''main'')),
      (Fetch (GitCommandManager 3) [''*'', ''main'', []] None, Inr VUnit),
      (TestRef (GitCommandManager 3) ''main'' [], Inr (VBool False)),
      (Fetch (GitCommandManager 3) [''main'', []] None, Inr VUnit),
      (GetCheckoutInfo (GitCommandManager 3) ''main'' [],
         Inr (VCheckoutInfo (CheckoutInfo ''main'' ''origin''))),
      (Checkout (GitCommandManager 3) ''main'' ''origin'', Inr VUnit),
      (Log1 (GitCommandManager 3) None, Inr (VString ''main'')),
      (Log1 (GitCommandManager 3) (Some (''--format='%H'' @ [CHR 0x27])), Inr (VString ''main'')),
      (CheckCommitInfo ''t'' ''main'' ''o'' ''r'' ''main'' [], Inr VUnit),
      (RemoveAuth (GitCommandManager 3), Inr VUnit)])
   \<and> lookups (snd (getSource env_ok settings_tag 0)) = [ApiGetDefaultBranch ''t'' ''o'' ''r'']
   \<and> fetches (snd (getSource env_ok settings_tag 0)) =
       [Fetch (GitCommandManager 3) (getRefSpecForAllHistory env_ok ''main'' []) None,
        Fetch (GitCommandManager 3) (getRefSpec env_ok ''main'' []) None]"
  by (simp add: getSource_tag settings_tag_fields env_ok_fields)

lemma getSource_ssh:
  "getSource env_ok (settings_tag\<lparr>ref := [], sshKey := ''k''\<rparr>) 0 =
    (Inr (),
     [(FileExistsSync ''/w'', Inr (VBool True)), (RmRF ''/w'', Inr VUnit),
      (DirectoryExistsSync ''/w'', Inr (VBool True)),
      (CreateCommandManager ''/w'' False, Inr (VGit (GitCommandManager 3))),
      (PrepareExistingDirectory (Some (GitCommandManager 3)) ''/w'' ''https://github.com/o/r''
         True [], Inr VUnit),
      (SetRepositoryPath ''/w'', Inr VUnit),
      (DirectoryExistsSync ''/w/.git'', Inr (VBool True)),
      (TryDisableAutomaticGarbageCollection (GitCommandManager 3), Inr (VBool True)),
      (ConfigureAuth (GitCommandManager 3), Inr VUnit),
      (GitGetDefaultBranch (GitCommandManager 3) ''https://github.com/o/r'',
         Inr (VString ''main'')),
      (Fetch (GitCommandManager 3) [''*'', ''main'', []] None, Inr VUnit),
      (TestRef (GitCommandManager 3) ''main'' [], Inr (VBool False)),
      (Fetch (GitCommandManager 3) [''main'', []] None, Inr VUnit),
      (GetCheckoutInfo (GitCommandManager 3) ''main'' [],
         Inr (VCheckoutInfo (CheckoutInfo ''main'' ''origin''))),
      (Checkout (GitCommandManager 3) ''main'' ''origin'', Inr VUnit),
      (Log1 (GitCommandManager 3) None, Inr (VString ''main'')),
      (Log1 (GitCommandManager 3) (Some (''--format='%H'' @ [CHR 0x27])), Inr (VString ''main'')),
      (CheckCommitInfo ''t'' ''main'' ''o'' ''r'' ''main'' [], Inr VUnit),
      (RemoveAuth (GitCommandManager 3), Inr VUnit)])"
  by (simp add: run_defs env_ok_fields settings_tag_fields)

section \<open>The default branch when neither ref nor commit is given (C8)\<close>

text \<open>
  Claim C8. Take a run of \<^verbatim>\<open>getSource\<close> with no ref and no commit. Either the run ended
  before auth was configured on a native client (then nothing is looked up or fetched), or
  the default branch is looked up right after \<^verbatim>\<open>configureAuth\<close> returned, before any fetch:
  by \<^verbatim>\<open>git.getDefaultBranch(repositoryUrl)\<close> on the native client when \<open>sshKey\<close> is set, by
  the API's \<^verbatim>\<open>getDefaultBranch(authToken, repositoryOwner, repositoryName)\<close> otherwise, and by
  no other lookup. When the lookup returns \<open>b\<close>, the first fetch is the fetch of lines
  127-144 for the ref \<open>b\<close>: the value has replaced \<^verbatim>\<open>settings.ref\<close> before fetching; a run that
  returns has fetched. When the lookup throws, nothing is fetched and the run ends with an
  error.
\<close>

theorem default_branch_when_no_ref:
  assumes "getSource E s n = (r, t)" "ref s = []" "commit s = []"
  shows "(lookups t = [] \<and> fetches t = [] \<and> (\<forall>g. (ConfigureAuth g, Inr VUnit) \<notin> set t))
      \<or> (\<exists>g pre out post.
           t = pre @ (if sshKey s \<noteq> [] then GitGetDefaultBranch g (getFetchUrl E s)
                      else ApiGetDefaultBranch (authToken s) (repositoryOwner s)
                             (repositoryName s), out) # post
           \<and> pre \<noteq> [] \<and> last pre = (ConfigureAuth g, Inr VUnit)
           \<and> lookups pre = [] \<and> fetches pre = [] \<and> lookups post = []
           \<and> (\<forall>e. out = Inl e \<longrightarrow> fetches post = [] \<and> r \<noteq> Inr ())
           \<and> (\<forall>b. out = Inr (VString b) \<longrightarrow>
                 (fetches post = [] \<or> hd (fetches post) = first_fetch E s g b)
                 \<and> (r = Inr () \<longrightarrow> fetches post \<noteq> []))
           \<and> ((\<exists>e. out = Inl e) \<or> (\<exists>b. out = Inr (VString b))))"
  using assms(1)
proof (cases rule: getSource_resolving)
  case early
  then show ?thesis by blast
next
  case (resolving g pre m rD tD post)
  let ?c = "if sshKey s \<noteq> [] then GitGetDefaultBranch g (getFetchUrl E s)
            else ApiGetDefaultBranch (authToken s) (repositoryOwner s) (repositoryName s)"
  have "\<exists>g pre out post.
           t = pre @ (if sshKey s \<noteq> [] then GitGetDefaultBranch g (getFetchUrl E s)
                      else ApiGetDefaultBranch (authToken s) (repositoryOwner s)
                             (repositoryName s), out) # post
           \<and> pre \<noteq> [] \<and> last pre = (ConfigureAuth g, Inr VUnit)
           \<and> lookups pre = [] \<and> fetches pre = [] \<and> lookups post = []
           \<and> (\<forall>e. out = Inl e \<longrightarrow> fetches post = [] \<and> r \<noteq> Inr ())
           \<and> (\<forall>b. out = Inr (VString b) \<longrightarrow>
                 (fetches post = [] \<or> hd (fetches post) = first_fetch E s g b)
                 \<and> (r = Inr () \<longrightarrow> fetches post \<noteq> []))
           \<and> ((\<exists>e. out = Inl e) \<or> (\<exists>b. out = Inr (VString b)))"
    using resolving(2)
  proof (cases rule: determineDefaultBranch_cases)
    case kept_commit
    with assms(3) show ?thesis by simp
  next
    case kept_branch
    with assms(2) show ?thesis by simp
  next
    case (exists_failed e)
    with assms(2) show ?thesis by simp
  next
    case (lookup_failed tq c e)
    with assms(2) have tq: "tq = []" by simp
    have t: "t = pre @ (?c, Inl e) # post"
      using resolving(1) lookup_failed(1,4) tq by simp
    have f: "fetches post = []" using resolving(9) [OF lookup_failed(2)] .
    have bad: "r \<noteq> Inr ()" using resolving(11) lookup_failed(2) by auto
    show ?thesis
      apply (rule exI [of _ g], rule exI [of _ pre], rule exI [of _ "Inl e"],
          rule exI [of _ post])
      using t resolving(3,4,5,6,8) f bad apply simp
      done
  next
    case (looked_up tq c b)
    with assms(2) have tq: "tq = []" by simp
    have t: "t = pre @ (?c, Inr (VString b)) # post"
      using resolving(1) looked_up(1,4) tq by simp
    have f: "fetches post = [] \<or> hd (fetches post) = first_fetch E s g b"
      using resolving(10) [OF looked_up(2)] by simp
    have ok: "r = Inr () \<longrightarrow> fetches post \<noteq> []" using resolving(11) by blast
    show ?thesis
      apply (rule exI [of _ g], rule exI [of _ pre], rule exI [of _ "Inr (VString b)"],
          rule exI [of _ post])
      using t resolving(3,4,5,6,8) f ok apply simp
      done
  qed
  then show ?thesis by (rule disjI2)
qed

theorem default_branch_when_no_ref_witness:
  "ref (settings_tag\<lparr>ref := [], sshKey := ''k''\<rparr>) = []
   \<and> commit (settings_tag\<lparr>ref := [], sshKey := ''k''\<rparr>) = []
   \<and> (\<exists>g pre out post.
        snd (getSource env_ok (settings_tag\<lparr>ref := [], sshKey := ''k''\<rparr>) 0)
          = pre @ (if sshKey (settings_tag\<lparr>ref := [], sshKey := ''k''\<rparr>) \<noteq> []
                   then GitGetDefaultBranch g
                          (getFetchUrl env_ok (settings_tag\<lparr>ref := [], sshKey := ''k''\<rparr>))
                   else ApiGetDefaultBranch
                          (authToken (settings_tag\<lparr>ref := [], sshKey := ''k''\<rparr>))
                          (repositoryOwner (settings_tag\<lparr>ref := [], sshKey := ''k''\<rparr>))
                          (repositoryName (settings_tag\<lparr>ref := [], sshKey := ''k''\<rparr>)), out)
                # post
        \<and> pre \<noteq> [] \<and> last pre = (ConfigureAuth g, Inr VUnit)
        \<and> lookups pre = [] \<and> fetches pre = [] \<and> lookups post = []
        \<and> (\<forall>e. out = Inl e \<longrightarrow> fetches post = []
               \<and> fst (getSource env_ok (settings_tag\<lparr>ref := [], sshKey := ''k''\<rparr>) 0) \<noteq> Inr ())
        \<and> (\<forall>b. out = Inr (VString b) \<longrightarrow>
              (fetches post = [] \<or> hd (fetches post)
                 = first_fetch env_ok (settings_tag\<lparr>ref := [], sshKey := ''k''\<rparr>) g b)
              \<and> (fst (getSource env_ok (settings_tag\<lparr>ref := [], sshKey := ''k''\<rparr>) 0) = Inr ()
                   \<longrightarrow> fetches post \<noteq> []))
        \<and> ((\<exists>e. out = Inl e) \<or> (\<exists>b. out = Inr (VString b))))"
proof -
  have a: "ref (settings_tag\<lparr>ref := [], sshKey := ''k''\<rparr>) = []"
    "commit (settings_tag\<lparr>ref := [], sshKey := ''k''\<rparr>) = []"
    by (simp_all add: settings_tag_fields)
  have b: "lookups (snd (getSource env_ok (settings_tag\<lparr>ref := [], sshKey := ''k''\<rparr>) 0)) \<noteq> []"
    by (simp add: getSource_ssh)
  note c = disj_elim_left [OF default_branch_when_no_ref
      [of env_ok "settings_tag\<lparr>ref := [], sshKey := ''k''\<rparr>" 0, OF surjective_pairing a] b]
  from a c show ?thesis by (intro conjI)
qed

section \<open>The two-phase fetch (C2)\<close>

text \<open>
  Claim C2. Take a run of \<^verbatim>\<open>getSource\<close>. Either it fetches nothing, and then it did not
  configure auth on a native client or it ended with an error; or its trace is
  \<open>pre @ tF @ post\<close>, where \<open>pre\<close> has no fetch, \<open>tF\<close> is the fetch of the repository for
  the ref \<open>b\<close> (the ref of the settings, or the default branch that a lookup in \<open>pre\<close>
  returned) and:

  \<^item> with \<open>fetchDepth \<le> 0\<close>, \<open>tF\<close> starts with one blanket fetch, with the refspec of
    \<^verbatim>\<open>getRefSpecForAllHistory(ref, commit)\<close> and no depth. If it throws, nothing follows.
    Otherwise \<^verbatim>\<open>testRef\<close> is called; exactly when it answers \<open>false\<close>, one corrective fetch
    with the refspec of \<^verbatim>\<open>getRefSpec(ref, commit)\<close> and no depth follows, and it ends \<open>tF\<close>.
    No fetch is made after \<open>tF\<close>;
  \<^item> with \<open>fetchDepth > 0\<close>, \<open>tF\<close> is a single fetch with the refspec of
    \<^verbatim>\<open>getRefSpec(ref, commit)\<close> and the given depth. The only fetches after \<open>tF\<close> are those
    of the override branch in the submodules, which need \<open>submodules\<close> and
    \<open>submodulesRemoteBranch\<close>.

  A run that returns has made the fetches of \<open>tF\<close> without error.
\<close>

theorem two_phase_fetch:
  assumes "getSource E s n = (r, t)"
  shows "(fetches t = [] \<and> ((\<forall>g. (ConfigureAuth g, Inr VUnit) \<notin> set t) \<or> r \<noteq> Inr ()))
    \<or> (\<exists>g b pre tF post. t = pre @ tF @ post \<and> fetches pre = []
         \<and> (b = ref s \<or> (\<exists>c. is_lookup c \<and> (c, Inr (VString b)) \<in> set pre))
         \<and> (fetchDepth s \<le> 0 \<longrightarrow> fetches post = []
              \<and> ((\<exists>e. tF = [(Fetch g (getRefSpecForAllHistory E b (commit s)) None, Inl e)]
                     \<and> r \<noteq> Inr ())
                \<or> (\<exists>out. tF = [(Fetch g (getRefSpecForAllHistory E b (commit s)) None, Inr VUnit),
                                (TestRef g b (commit s), out)]
                     \<and> out \<noteq> Inr (VBool False) \<and> (r = Inr () \<longrightarrow> out = Inr (VBool True)))
                \<or> (\<exists>out. tF = [(Fetch g (getRefSpecForAllHistory E b (commit s)) None, Inr VUnit),
                                (TestRef g b (commit s), Inr (VBool False)),
                                (Fetch g (getRefSpec E b (commit s)) None, out)]
                     \<and> (r = Inr () \<longrightarrow> out = Inr VUnit))))
         \<and> (0 < fetchDepth s \<longrightarrow>
                (\<exists>out. tF = [(Fetch g (getRefSpec E b (commit s)) (Some (fetchDepth s)), out)]
                     \<and> (r = Inr () \<longrightarrow> out = Inr VUnit))
              \<and> (\<forall>ev \<in> set post. is_fetch (fst ev) \<longrightarrow>
                    submodules s \<and> submodulesRemoteBranch s \<noteq> []
                    \<and> (\<exists>sg. fst ev = Fetch sg (getRefSpec E (submodulesRemoteBranch s) [])
                           (Some (fetchDepth s))))))"
  using assms
proof (cases rule: getSource_phases)
  case early
  then have "fetches t = []" unfolding fetches_empty
    by (auto simp: early_calls_def directory_calls_def initialize_calls_def)
  with early(2) show ?thesis by blast
next
  case (unresolved g pre m e tD tf)
  have "fetches pre = []" using unresolved(3) unfolding fetches_empty
    by (auto simp: directory_calls_def initialize_calls_def)
  moreover have "fetches tD = []"
    using determineDefaultBranch_calls' [OF unresolved(2)] unfolding fetches_empty by auto
  moreover have "fetches tf = []" using unresolved(6) unfolding fetches_empty by auto
  ultimately have "fetches t = []" using unresolved(1) by simp
  with unresolved(7) show ?thesis by blast
next
  case (lfs_failed g pre m s' tD e tf)
  have "fetches pre = []" using lfs_failed(3) unfolding fetches_empty
    by (auto simp: directory_calls_def initialize_calls_def)
  moreover have "fetches tD = []"
    using determineDefaultBranch_calls' [OF lfs_failed(2)] unfolding fetches_empty by auto
  moreover have "fetches tf = []" using lfs_failed(6) unfolding fetches_empty by auto
  ultimately have "fetches t = []" using lfs_failed(1) by simp
  with lfs_failed(7) show ?thesis by blast
next
  case (fetched g pre m s' tD tL k rF tF post)
  note fields = determineDefaultBranch_fields [OF fetched(2)]
  define b where "b = ref s'"
  have "fetches pre = []" using fetched(5) unfolding fetches_empty
    by (auto simp: directory_calls_def initialize_calls_def)
  moreover have "fetches tD = []"
    using determineDefaultBranch_calls' [OF fetched(2)] unfolding fetches_empty by auto
  moreover have "fetches tL = []" using fetched(4) by auto
  ultimately have pre: "fetches (pre @ tD @ tL) = []" by simp
  have res: "b = ref s \<or> (\<exists>c. is_lookup c \<and> (c, Inr (VString b)) \<in> set (pre @ tD @ tL))"
    using fetched(2)
  proof (cases rule: determineDefaultBranch_cases)
    case (looked_up tq c b')
    have "is_lookup c" using looked_up(4) by simp
    moreover have "(c, Inr (VString b)) \<in> set (pre @ tD @ tL)"
      using looked_up(1,2) unfolding b_def by simp
    ultimately show ?thesis by blast
  qed (simp_all add: b_def)
  have post: "\<forall>ev \<in> set post. is_fetch (fst ev) \<longrightarrow>
                    submodules s \<and> submodulesRemoteBranch s \<noteq> [] \<and> 0 < fetchDepth s
                    \<and> (\<exists>sg. fst ev = Fetch sg (getRefSpec E (submodulesRemoteBranch s) [])
                           (Some (fetchDepth s)))"
    using fetched(8) unfolding later_event_def by blast
  have none: "fetchDepth s \<le> 0 \<longrightarrow> fetches post = []"
    using post unfolding fetches_empty by fastforce
  have post': "\<forall>ev \<in> set post. is_fetch (fst ev) \<longrightarrow>
                    submodules s \<and> submodulesRemoteBranch s \<noteq> []
                    \<and> (\<exists>sg. fst ev = Fetch sg (getRefSpec E (submodulesRemoteBranch s) [])
                           (Some (fetchDepth s)))"
    using post by blast
  have full: "(\<exists>e. tF = [(Fetch g (getRefSpecForAllHistory E b (commit s)) None, Inl e)]
                     \<and> r \<noteq> Inr ())
                \<or> (\<exists>out. tF = [(Fetch g (getRefSpecForAllHistory E b (commit s)) None, Inr VUnit),
                                (TestRef g b (commit s), out)]
                     \<and> out \<noteq> Inr (VBool False) \<and> (r = Inr () \<longrightarrow> out = Inr (VBool True)))
                \<or> (\<exists>out. tF = [(Fetch g (getRefSpecForAllHistory E b (commit s)) None, Inr VUnit),
                                (TestRef g b (commit s), Inr (VBool False)),
                                (Fetch g (getRefSpec E b (commit s)) None, out)]
                     \<and> (r = Inr () \<longrightarrow> out = Inr VUnit))"
    if "fetchDepth s \<le> 0"
    using fetched(3)
  proof (cases rule: fetchRepository_cases)
    case (full_failed e)
    with fetched(9) fields(3) show ?thesis unfolding b_def by auto
  next
    case (full_unchecked e)
    with fetched(9) fields(3) show ?thesis unfolding b_def by auto
  next
    case full_matches
    with fetched(9) fields(3) show ?thesis unfolding b_def by auto
  next
    case (full_corrected out)
    with fetched(9) fields(3) show ?thesis unfolding b_def by auto
  next
    case (shallow out)
    with that fields(4) show ?thesis by simp
  qed
  have shallow: "\<exists>out. tF = [(Fetch g (getRefSpec E b (commit s)) (Some (fetchDepth s)), out)]
                     \<and> (r = Inr () \<longrightarrow> out = Inr VUnit)"
    if "0 < fetchDepth s"
    using fetched(3)
  proof (cases rule: fetchRepository_cases)
    case (shallow out)
    with fetched(9) fields(3,4) show ?thesis unfolding b_def by auto
  qed (use that fields(4) in simp_all)
  have t: "t = (pre @ tD @ tL) @ tF @ post" using fetched(1) by simp
  show ?thesis
    apply (rule disjI2)
    apply (rule exI [of _ g], rule exI [of _ b], rule exI [of _ "pre @ tD @ tL"],
        rule exI [of _ tF], rule exI [of _ post])
    apply (intro conjI impI t pre res)
      apply (erule none [rule_format])
     apply (erule full)
     apply (erule shallow)
    apply (rule post')
    done
qed

theorem two_phase_fetch_witness:
  "fetchDepth settings_tag \<le> 0
   \<and> (TestRef (GitCommandManager 3) ''main'' [], Inr (VBool False))
        \<in> set (snd (getSource env_ok settings_tag 0))
   \<and> (\<exists>g b pre tF post. snd (getSource env_ok settings_tag 0) = pre @ tF @ post \<and> fetches pre = []
         \<and> (b = ref settings_tag \<or> (\<exists>c. is_lookup c \<and> (c, Inr (VString b)) \<in> set pre))
         \<and> (fetchDepth settings_tag \<le> 0 \<longrightarrow> fetches post = []
              \<and> ((\<exists>e. tF = [(Fetch g (getRefSpecForAllHistory env_ok b (commit settings_tag)) None,
                               Inl e)]
                     \<and> fst (getSource env_ok settings_tag 0) \<noteq> Inr ())
                \<or> (\<exists>out. tF = [(Fetch g (getRefSpecForAllHistory env_ok b (commit settings_tag))
                                  None, Inr VUnit),
                                (TestRef g b (commit settings_tag), out)]
                     \<and> out \<noteq> Inr (VBool False)
                     \<and> (fst (getSource env_ok settings_tag 0) = Inr ()
                          \<longrightarrow> out = Inr (VBool True)))
                \<or> (\<exists>out. tF = [(Fetch g (getRefSpecForAllHistory env_ok b (commit settings_tag))
                                  None, Inr VUnit),
                                (TestRef g b (commit settings_tag), Inr (VBool False)),
                                (Fetch g (getRefSpec env_ok b (commit settings_tag)) None, out)]
                     \<and> (fst (getSource env_ok settings_tag 0) = Inr () \<longrightarrow> out = Inr VUnit))))
         \<and> (0 < fetchDepth settings_tag \<longrightarrow>
                (\<exists>out. tF = [(Fetch g (getRefSpec env_ok b (commit settings_tag))
                                (Some (fetchDepth settings_tag)), out)]
                     \<and> (fst (getSource env_ok settings_tag 0) = Inr () \<longrightarrow> out = Inr VUnit))
              \<and> (\<forall>ev \<in> set post. is_fetch (fst ev) \<longrightarrow>
                    submodules settings_tag \<and> submodulesRemoteBranch settings_tag \<noteq> []
                    \<and> (\<exists>sg. fst ev = Fetch sg
                           (getRefSpec env_ok (submodulesRemoteBranch settings_tag) [])
                           (Some (fetchDepth settings_tag))))))"
proof -
  have a: "fetchDepth settings_tag \<le> 0" by (simp add: settings_tag_fields)
  have b: "(TestRef (GitCommandManager 3) ''main'' [], Inr (VBool False))
        \<in> set (snd (getSource env_ok settings_tag 0))"
    by (simp add: getSource_tag)
  have c: "fetches (snd (getSource env_ok settings_tag 0)) \<noteq> []"
    by (simp add: getSource_tag)
  note d = disj_elim_left [OF two_phase_fetch [of env_ok settings_tag 0, OF surjective_pairing] c]
  from a b d show ?thesis by (intro conjI)
qed

end
